theory Spec2Isabelle
  imports Complex_Main "HOL-Library.AList" "HOL-Library.Word"
begin

section \<open>Exceptions\<close>

text \<open>
  The Python exceptions that the two source files raise themselves, or that the
  interpreter raises inside them. \<open>External\<close> stands for any other subclass of
  \<open>Exception\<close> raised by OpenCV, NumPy or Keras. Every constructor carries the
  message that \<open>str(e)\<close> returns.
\<close>

datatype exn =
    RuntimeError string
  | ZeroDivisionError string
  | IndexError string
  | ValueError string
  | External string

fun str_exn :: "exn \<Rightarrow> string" where
  "str_exn (RuntimeError m) = m"
| "str_exn (ZeroDivisionError m) = m"
| "str_exn (IndexError m) = m"
| "str_exn (ValueError m) = m"
| "str_exn (External m) = m"

section \<open>Settings and the detector object\<close>

text \<open>
  A frame is a raster: a list of rows, each a list of pixels (a pixel holds its three
  colour channels). A bounding box is a row \<open>(x, y, w, h)\<close> of the \<open>int32\<close> array that
  \<open>detectMultiScale\<close> returns: its entries are 32-bit integers, read as signed, and
  arithmetic on them wraps around.
\<close>

type_synonym 'p image = "'p list list"
type_synonym bbox = "32 word \<times> 32 word \<times> 32 word \<times> 32 word"

text \<open>
  A score of the model is a floating-point number: a real, an infinity or \<open>NaN\<close>.
  The comparisons are those of IEEE 754 and of Python: every comparison with \<open>NaN\<close> is
  false, also \<open>NaN == NaN\<close>.
\<close>

datatype float = NaN | MInf | Finite real | PInf

fun float_le :: "float \<Rightarrow> float \<Rightarrow> bool" where
  "float_le NaN b = False"
| "float_le a NaN = False"
| "float_le MInf b = True"
| "float_le a PInf = True"
| "float_le (Finite a) (Finite b) = (a \<le> b)"
| "float_le a b = False"

instantiation float :: "{zero, one, ord}"
begin

definition zero_float :: float where
  "zero_float = Finite 0"

definition one_float :: float where
  "one_float = Finite 1"

definition less_eq_float :: "float \<Rightarrow> float \<Rightarrow> bool" where
  "less_eq_float a b = float_le a b"

definition less_float :: "float \<Rightarrow> float \<Rightarrow> bool" where
  "less_float a b = (float_le a b \<and> \<not> float_le b a)"

instance ..

end

text \<open>\<open>a == b\<close> on two floats.\<close>

definition py_eq :: "float \<Rightarrow> float \<Rightarrow> bool" where
  "py_eq a b = (a \<noteq> NaN \<and> a = b)"

text \<open>\<open>EmotionDetectorSettings\<close>, without the two file paths that only \<open>_load_models\<close> reads.\<close>

record settings =
  frame_interval :: int
  keras_img_size :: int
  keras_emotions :: "string list"

definition default_settings :: settings where
  "default_settings = \<lparr> frame_interval = 5, keras_img_size = 224,
     keras_emotions = [''angry'', ''disgust'', ''fear'', ''happy'', ''sad'',
                       ''surprise'', ''neutral'', ''contempt''] \<rparr>"

text \<open>
  \<open>EmotionDetector\<close> after \<open>_load_models\<close>. The library calls are parameters of the
  model, each a function that returns its value or the exception it raises:
  \<^item> \<open>video_files\<close>: what \<open>cv2.VideoCapture(path)\<close> finds: \<open>None\<close> when the video
    cannot be opened, else the frames that \<open>cap.read()\<close> delivers before it first fails;
  \<^item> \<open>cascade\<close>: \<open>cv2.cvtColor(frame, COLOR_BGR2GRAY)\<close> followed by
    \<open>face_cascade.detectMultiScale\<close>;
  \<^item> \<open>preprocess\<close>: \<open>cv2.resize\<close> to the given size, \<open>cv2.cvtColor\<close> and
    \<open>preprocess_input\<close>;
  \<^item> \<open>predict\<close>: \<open>model.predict(np.expand_dims(img, 0), verbose=0)[0]\<close>, the score
    vector.
\<close>

record ('p, 'i) detector =
  settings :: settings
  video_files :: "string \<Rightarrow> 'p image list option"
  cascade :: "'p image \<Rightarrow> exn + bbox list"
  preprocess :: "int \<Rightarrow> 'p image \<Rightarrow> exn + 'i"
  predict :: "'i \<Rightarrow> exn + float list"

section \<open>The frame sampler: \<open>extract_frames\<close>\<close>

text \<open>The \<open>cv2.VideoCapture\<close> handle: the frames not yet read, and whether
  \<open>release()\<close> has been called on it.\<close>

record 'f capture =
  is_opened :: bool
  stream :: "'f list"
  released :: bool

definition VideoCapture :: "('p, 'i) detector \<Rightarrow> string \<Rightarrow> 'p image capture" where
  "VideoCapture d video_path =
     (case video_files d video_path of
        None \<Rightarrow> \<lparr> is_opened = False, stream = [], released = False \<rparr>
      | Some frames \<Rightarrow> \<lparr> is_opened = True, stream = frames, released = False \<rparr>)"

definition release :: "'f capture \<Rightarrow> 'f capture" where
  "release cap = cap \<lparr> is_opened := False, released := True \<rparr>"

text \<open>
  \<open>extract_frames\<close> is a generator. Its states: created and not yet started (the
  arguments are stored, nothing has run); suspended at the \<open>yield\<close> with its locals
  \<open>cap\<close>, \<open>frame_count\<close> and \<open>interval\<close>; finished (the body was left by falling off
  its end, by an exception or by \<open>close()\<close>), with the handle as the body left it.
\<close>

datatype 'f gen =
    Unstarted string "int option"
  | Suspended "'f capture" int int
  | Finished "'f capture option"

datatype 'f event = Yield 'f | StopIteration | Raise exn

text \<open>
  The \<open>while True\<close> loop from its head, on the frames still to be read, up to the next
  \<open>yield\<close>, the \<open>break\<close> or an exception. It returns what happened, the frames left
  unread and \<open>frame_count\<close>. The operands of \<open>%\<close> are Python integers: a zero divisor
  raises, and for a non-zero one \<open>mod\<close> on \<open>int\<close> is Python's \<open>%\<close> (the sign of the
  divisor).
\<close>

fun loop :: "'f list \<Rightarrow> int \<Rightarrow> int \<Rightarrow> 'f event \<times> 'f list \<times> int" where
  "loop [] frame_count interval = (StopIteration, [], frame_count)"
| "loop (frame # rest) frame_count interval =
     (if interval = 0 then (Raise (ZeroDivisionError ''integer modulo by zero''), rest, frame_count)
      else if frame_count mod interval = 0 then (Yield frame, rest, frame_count)
      else loop rest (frame_count + 1) interval)"

text \<open>Running the body from the loop head: \<open>cap.release()\<close> is the statement after
  the loop, reached through the \<open>break\<close> only.\<close>

definition run_body :: "'f capture \<Rightarrow> int \<Rightarrow> int \<Rightarrow> 'f event \<times> 'f gen" where
  "run_body cap frame_count interval =
     (case loop (stream cap) frame_count interval of
        (Yield frame, rest, n) \<Rightarrow> (Yield frame, Suspended (cap \<lparr> stream := rest \<rparr>) n interval)
      | (StopIteration, rest, n) \<Rightarrow>
          (StopIteration, Finished (Some (release (cap \<lparr> stream := rest \<rparr>))))
      | (Raise e, rest, n) \<Rightarrow> (Raise e, Finished (Some (cap \<lparr> stream := rest \<rparr>))))"

definition extract_frames :: "string \<Rightarrow> int option \<Rightarrow> 'f gen" where
  "extract_frames video_path interval = Unstarted video_path interval"

text \<open>\<open>next(g)\<close>: start the body, or resume it after the \<open>yield\<close> at
  \<open>frame_count += 1\<close>.\<close>

fun gen_next :: "('p, 'i) detector \<Rightarrow> 'p image gen \<Rightarrow> 'p image event \<times> 'p image gen" where
  "gen_next d (Unstarted video_path interval) =
     (let interval = (case interval of None \<Rightarrow> frame_interval (settings d) | Some n \<Rightarrow> n);
          cap = VideoCapture d video_path
      in if \<not> is_opened cap
         then (Raise (RuntimeError (''Cannot open video: '' @ video_path)), Finished (Some cap))
         else run_body cap 0 interval)"
| "gen_next d (Suspended cap frame_count interval) = run_body cap (frame_count + 1) interval"
| "gen_next d (Finished cap) = (StopIteration, Finished cap)"

text \<open>\<open>g.close()\<close>, also what happens when a suspended generator is dropped:
  \<open>GeneratorExit\<close> is raised at the \<open>yield\<close>; the body has no \<open>try\<close> around it, so no
  statement of the body runs.\<close>

fun gen_close :: "'f gen \<Rightarrow> 'f gen" where
  "gen_close (Unstarted video_path interval) = Finished None"
| "gen_close (Suspended cap frame_count interval) = Finished (Some cap)"
| "gen_close (Finished cap) = Finished cap"

text \<open>\<open>list(g)\<close>: call \<open>next\<close> until \<open>StopIteration\<close>; an exception of the body
  propagates. The second component is the generator as it is left.\<close>

fun gen_size :: "('p, 'i) detector \<Rightarrow> 'p image gen \<Rightarrow> nat" where
  "gen_size d (Unstarted video_path interval) =
     Suc (case video_files d video_path of None \<Rightarrow> 0 | Some frames \<Rightarrow> length frames)"
| "gen_size d (Suspended cap frame_count interval) = length (stream cap)"
| "gen_size d (Finished cap) = 0"

function drain :: "('p, 'i) detector \<Rightarrow> 'p image event \<times> 'p image gen \<Rightarrow> 'p image list
    \<Rightarrow> (exn + 'p image list) \<times> 'p image gen" where
  "drain d (Yield frame, g) acc = drain d (gen_next d g) (acc @ [frame])"
| "drain d (StopIteration, g) acc = (Inr acc, g)"
| "drain d (Raise e, g) acc = (Inl e, g)"
  by pat_completeness auto
termination
proof (relation "measure (\<lambda>(d, (ev, g), acc). case ev of Yield f \<Rightarrow> Suc (gen_size d g) | _ \<Rightarrow> 0)")
  show "wf (measure (\<lambda>(d, (ev, g), acc). case ev of Yield f \<Rightarrow> Suc (gen_size d g) | _ \<Rightarrow> 0))"
    by simp
next
  fix d :: "('p, 'i) detector" and frame :: "'p image" and g :: "'p image gen"
    and acc :: "'p image list"
  have shorter: "length rest < length fs"
    if "loop fs n k = (Yield f, rest, n')" for fs rest :: "'p image list" and n k f n'
    using that by (induction fs n k rule: loop.induct) (auto split: if_splits)
  have body: "gen_size d g' < length (stream cap)"
    if "run_body cap n k = (Yield f, g')" for cap n k f g'
    using that shorter [of "stream cap" n k]
    by (auto simp: run_body_def split: prod.splits event.splits)
  have "gen_size d g' < gen_size d g" if "gen_next d g = (Yield f, g')" for f g'
  proof (cases g)
    case (Unstarted p i)
    with that show ?thesis
      by (auto simp: Let_def VideoCapture_def split: if_splits option.splits dest!: body)
  next
    case (Suspended cap n k)
    with that body [of cap "n + 1" k f g'] show ?thesis
      by simp
  next
    case (Finished c)
    with that show ?thesis by simp
  qed
  then show "((d, gen_next d g, acc @ [frame]), (d, (Yield frame, g), acc))
      \<in> measure (\<lambda>(d, (ev, g), acc). case ev of Yield f \<Rightarrow> Suc (gen_size d g) | _ \<Rightarrow> 0)"
    by (cases "gen_next d g") (auto split: event.splits)
qed

definition py_list :: "('p, 'i) detector \<Rightarrow> 'p image gen \<Rightarrow> exn + 'p image list" where
  "py_list d g = fst (drain d (gen_next d g) [])"

section \<open>Python and NumPy operations used by the detector\<close>

text \<open>A slice bound, clipped as Python and NumPy clip it: a negative bound counts
  from the end, and every bound is cut to the range of the sequence.\<close>

definition slice_bound :: "nat \<Rightarrow> int \<Rightarrow> nat" where
  "slice_bound n i = (if i < 0 then nat (max 0 (int n + i)) else min (nat i) n)"

definition py_slice :: "'a list \<Rightarrow> int \<Rightarrow> int \<Rightarrow> 'a list" where
  "py_slice xs lo hi =
     (let a = slice_bound (length xs) lo; b = slice_bound (length xs) hi
      in take (b - a) (drop a xs))"

text \<open>\<open>arr.size\<close> of a frame: rows times columns times the three channels.\<close>

definition arr_size :: "'p image \<Rightarrow> nat" where
  "arr_size img = 3 * sum_list (map length img)"

text \<open>\<open>xs[i]\<close> on a Python list.\<close>

definition py_index :: "'a list \<Rightarrow> int \<Rightarrow> exn + 'a" where
  "py_index xs i =
     (if i < - int (length xs) \<or> int (length xs) \<le> i
      then Inl (IndexError ''list index out of range'')
      else Inr (xs ! nat (if i < 0 then i + int (length xs) else i)))"

text \<open>
  \<open>np.argmax\<close> on a vector of floats, as NumPy's loop runs: the running maximum \<open>mp\<close>
  starts as the first entry; an entry \<open>x\<close> replaces it when \<open>x <= mp\<close> is false; a
  \<open>NaN\<close> counts as maximal and ends the loop. So the result is the position of the
  first \<open>NaN\<close> if there is one, and else of the first maximal entry. An empty vector
  raises.
\<close>

fun argmax_scan :: "float list \<Rightarrow> nat \<Rightarrow> nat \<Rightarrow> float \<Rightarrow> nat" where
  "argmax_scan [] i max_ind mp = max_ind"
| "argmax_scan (x # xs) i max_ind mp =
     (if \<not> x \<le> mp
      then (if x = NaN then i else argmax_scan xs (i + 1) i x)
      else argmax_scan xs (i + 1) max_ind mp)"

definition np_argmax :: "float list \<Rightarrow> exn + nat" where
  "np_argmax v =
     (case v of
        [] \<Rightarrow> Inl (ValueError ''attempt to get argmax of an empty sequence'')
      | x # xs \<Rightarrow> Inr (if x = NaN then 0 else argmax_scan xs 1 0 x))"

text \<open>\<open>max(iterable, key=...)\<close>: the running maximum is replaced only by an item
  whose key is strictly greater; an empty iterable raises.\<close>

fun max_scan :: "('a \<Rightarrow> int) \<Rightarrow> 'a list \<Rightarrow> 'a \<Rightarrow> 'a" where
  "max_scan key [] best = best"
| "max_scan key (x # xs) best = max_scan key xs (if key x > key best then x else best)"

definition py_max :: "('a \<Rightarrow> int) \<Rightarrow> 'a list \<Rightarrow> exn + 'a" where
  "py_max key xs =
     (case xs of
        [] \<Rightarrow> Inl (ValueError ''max() arg is an empty sequence'')
      | x # rest \<Rightarrow> Inr (max_scan key rest x))"

text \<open>A dict built by a comprehension: the pairs are stored in turn, a repeated key
  keeps its place and takes the later value.\<close>

definition py_dict :: "('k \<times> 'v) list \<Rightarrow> ('k \<times> 'v) list" where
  "py_dict kvs = foldl (\<lambda>d (k, v). AList.update k v d) [] kvs"

definition py_enumerate :: "'a list \<Rightarrow> (int \<times> 'a) list" where
  "py_enumerate xs = map (\<lambda>(i, x). (int i, x)) (enumerate 0 xs)"

section \<open>Per-frame analysis\<close>

text \<open>
  The result dictionaries of \<open>detect_emotion\<close> and \<open>analyze_frame\<close> have no keys but
  these five; a field is \<open>None\<close> when the dictionary has no such key. \<open>scores\<close> is the
  inner dictionary in insertion order.
\<close>

record frame_result =
  frame_index :: "int option"
  emotion :: string
  confidence :: float
  scores :: "(string \<times> float) list option"
  error :: "string option"

text \<open>\<open>frame[y:y+h, x:x+w]\<close>: the sums are taken on \<open>int32\<close> values.\<close>

definition crop_face :: "'p image \<Rightarrow> bbox \<Rightarrow> 'p image" where
  "crop_face frame bbox =
     (case bbox of (x, y, w, h) \<Rightarrow>
        map (\<lambda>row. py_slice row (sint x) (sint (x + w))) (py_slice frame (sint y) (sint (y + h))))"

text \<open>The \<open>try\<close> block of \<open>detect_emotion\<close>: \<open>Inl\<close> is an exception leaving it.\<close>

definition detect_emotion_try :: "('p, 'i) detector \<Rightarrow> 'p image \<Rightarrow> exn + frame_result" where
  "detect_emotion_try d face_img =
     (case preprocess d (keras_img_size (settings d)) face_img of
        Inl e \<Rightarrow> Inl e
      | Inr img \<Rightarrow>
     (case predict d img of
        Inl e \<Rightarrow> Inl e
      | Inr prediction \<Rightarrow>
     (case np_argmax prediction of
        Inl e \<Rightarrow> Inl e
      | Inr emotion_idx \<Rightarrow>
     (case py_index (keras_emotions (settings d)) (int emotion_idx) of
        Inl e \<Rightarrow> Inl e
      | Inr label \<Rightarrow>
          Inr \<lparr> frame_index = None, emotion = label,
                confidence = prediction ! emotion_idx,
                scores = Some (py_dict (zip (keras_emotions (settings d)) prediction)),
                error = None \<rparr>))))"

definition detect_emotion :: "('p, 'i) detector \<Rightarrow> 'p image \<Rightarrow> frame_result" where
  "detect_emotion d face_img =
     (case detect_emotion_try d face_img of
        Inr result \<Rightarrow> result
      | Inl e \<Rightarrow> \<lparr> frame_index = None, emotion = ''error'', confidence = 0,
                   scores = None, error = Some (str_exn e) \<rparr>)"

definition detect_faces :: "('p, 'i) detector \<Rightarrow> 'p image \<Rightarrow> exn + bbox list" where
  "detect_faces d frame = cascade d frame"

definition no_face_detected :: "int \<Rightarrow> frame_result" where
  "no_face_detected frame_idx =
     \<lparr> frame_index = Some frame_idx, emotion = ''no_face_detected'', confidence = 0,
       scores = None, error = None \<rparr>"

text \<open>The key \<open>lambda b: b[2] * b[3]\<close>: a product of two \<open>int32\<close> values, which is an
  \<open>int32\<close> value again.\<close>

definition area :: "bbox \<Rightarrow> int" where
  "area b = (case b of (x, y, w, h) \<Rightarrow> sint (w * h))"

text \<open>The \<open>try\<close> block of \<open>analyze_frame\<close>.\<close>

definition analyze_frame_try :: "('p, 'i) detector \<Rightarrow> 'p image \<Rightarrow> int \<Rightarrow> exn + frame_result" where
  "analyze_frame_try d frame frame_idx =
     (case detect_faces d frame of
        Inl e \<Rightarrow> Inl e
      | Inr faces \<Rightarrow>
          if length faces = 0 then Inr (no_face_detected frame_idx)
          else
            (case py_max area faces of
               Inl e \<Rightarrow> Inl e
             | Inr bbox \<Rightarrow>
                 let face = crop_face frame bbox
                 in if arr_size face = 0 then Inr (no_face_detected frame_idx)
                    else Inr ((detect_emotion d face) \<lparr> frame_index := Some frame_idx \<rparr>)))"

definition analyze_frame :: "('p, 'i) detector \<Rightarrow> 'p image \<Rightarrow> int \<Rightarrow> frame_result" where
  "analyze_frame d frame frame_idx =
     (case analyze_frame_try d frame frame_idx of
        Inr result \<Rightarrow> result
      | Inl e \<Rightarrow> \<lparr> frame_index = Some frame_idx, emotion = ''error'', confidence = 0,
                   scores = None, error = Some (str_exn e) \<rparr>)"

text \<open>The \<open>for\<close> loop of \<open>analyze_frames\<close> over \<open>enumerate(frames)\<close>, with the list
  \<open>results\<close> it appends to.\<close>

fun analyze_frames_loop ::
  "('p, 'i) detector \<Rightarrow> (int \<times> 'p image) list \<Rightarrow> frame_result list \<Rightarrow> frame_result list" where
  "analyze_frames_loop d [] results = results"
| "analyze_frames_loop d ((idx, frame) # rest) results =
     analyze_frames_loop d rest (results @ [analyze_frame d frame idx])"

definition analyze_frames :: "('p, 'i) detector \<Rightarrow> 'p image list \<Rightarrow> frame_result list" where
  "analyze_frames d frames = analyze_frames_loop d (py_enumerate frames) []"

definition analyze_video ::
  "('p, 'i) detector \<Rightarrow> string \<Rightarrow> int option \<Rightarrow> exn + frame_result list" where
  "analyze_video d video_path interval =
     (case py_list d (extract_frames video_path interval) of
        Inl e \<Rightarrow> Inl e
      | Inr frames \<Rightarrow> Inr (analyze_frames d frames))"

section \<open>The job store and the worker (\<open>main.py\<close>)\<close>

text \<open>
  A record of \<open>_job_results\<close> is the dictionary \<open>{"status": ..., "data": ...}\<close>; its
  \<open>data\<close> is Python's \<open>None\<close>, the list of frame results, or the dictionary
  \<open>{"error": message}\<close>.
\<close>

datatype payload = Results "frame_result list" | Error_dict string

record job =
  status :: string
  data :: "payload option"

type_synonym job_store = "string \<rightharpoonup> job"

text \<open>\<open>BackendSettings\<close>: the fields the analysis endpoint reads.\<close>

definition upload_dir :: string where
  "upload_dir = ''temp_uploads''"

definition backend_frame_interval :: int where
  "backend_frame_interval = 10"

text \<open>\<open>_run\<close>, as the update of \<open>_job_results\<close> it performs under \<open>_job_lock\<close>.\<close>

definition run :: "('p, 'i) detector \<Rightarrow> string \<Rightarrow> int \<Rightarrow> string \<Rightarrow> job_store \<Rightarrow> job_store" where
  "run d video_path interval job_id job_results =
     (case analyze_video d video_path (Some interval) of
        Inr results \<Rightarrow> job_results (job_id \<mapsto> \<lparr> status = ''done'', data = Some (Results results) \<rparr>)
      | Inl e \<Rightarrow>
          job_results (job_id \<mapsto> \<lparr> status = ''error'', data = Some (Error_dict (str_exn e)) \<rparr>))"

text \<open>
  The process: the global \<open>detector\<close>, and what the endpoint asks of Werkzeug and the
  file system. The state: \<open>_job_results\<close>, and the calls of \<open>_run\<close> submitted to
  \<open>_job_pool\<close> that have not run yet, each with its arguments.
\<close>

record ('p, 'i) backend =
  detector :: "('p, 'i) detector"
  secure_filename :: "string \<Rightarrow> string"
  is_file :: "string \<Rightarrow> bool"

record server =
  job_results :: job_store
  job_pool :: "(string \<times> int \<times> string) list"

text \<open>
  The JSON body of a request to \<open>/analyzeVideo\<close>: \<open>video_filename\<close> a string or
  absent, \<open>frame_interval\<close> an integer or absent (on an integer \<open>int(...)\<close> is the
  identity).
\<close>

record request =
  is_json :: bool
  video_filename :: "string option"
  frame_interval_arg :: "int option"

datatype response = Error_response nat string | Accepted string

text \<open>The view function \<open>analyze_video\<close> of \<open>main.py\<close>; \<open>job_id\<close> is the value
  of \<open>uuid.uuid4().hex\<close>.\<close>

definition analyze_video_endpoint ::
  "('p, 'i) backend \<Rightarrow> request \<Rightarrow> string \<Rightarrow> server \<Rightarrow> response \<times> server" where
  "analyze_video_endpoint b req job_id s =
     (if \<not> is_json req then (Error_response 400 ''json required'', s)
      else
        (case video_filename req of
           None \<Rightarrow> (Error_response 400 ''missing filename'', s)
         | Some video \<Rightarrow>
             if video = [] then (Error_response 400 ''missing filename'', s)
             else
               let path = upload_dir @ ''/'' @ secure_filename b video
               in if \<not> is_file b path then (Error_response 404 ''file not found'', s)
                  else
                    let interval = (case frame_interval_arg req of
                                      None \<Rightarrow> backend_frame_interval
                                    | Some n \<Rightarrow> n)
                    in (Accepted job_id,
                        s \<lparr> job_results := (job_results s) (job_id \<mapsto> \<lparr> status = ''queued'', data = None \<rparr>),
                            job_pool := job_pool s @ [(path, interval, job_id)] \<rparr>)))"

text \<open>
  What can happen to the store: a request is served with an identifier not in use,
  or a worker thread executes one of the submitted calls. Every access to the store
  is made under the lock, so each of the two is one atomic step.
\<close>

datatype action = Submit request string | Complete string

fun step :: "('p, 'i) backend \<Rightarrow> server \<Rightarrow> action \<Rightarrow> server option" where
  "step b s (Submit req job_id) =
     (if job_id \<in> dom (job_results s) then None
      else Some (snd (analyze_video_endpoint b req job_id s)))"
| "step b s (Complete job_id) =
     (case find (\<lambda>task. snd (snd task) = job_id) (job_pool s) of
        None \<Rightarrow> None
      | Some (video_path, interval, j) \<Rightarrow>
          Some (s \<lparr> job_results := run (detector b) video_path interval j (job_results s),
                    job_pool := remove1 (video_path, interval, j) (job_pool s) \<rparr>))"

fun exec :: "('p, 'i) backend \<Rightarrow> server \<Rightarrow> action list \<Rightarrow> server option" where
  "exec b s [] = Some s"
| "exec b s (a # as) = (case step b s a of None \<Rightarrow> None | Some s' \<Rightarrow> exec b s' as)"

definition startup :: server where
  "startup = \<lparr> job_results = Map.empty, job_pool = [] \<rparr>"

section \<open>The sampler's contract in the words of the specification\<close>

text \<open>
  Section 4.1 of the specification gives the sampler the contract
  \<open>sample(video_source, interval) \<rightarrow> lazy sequence of (frame_index, frame)\<close>, yielding
  a frame iff \<open>frame_index mod interval == 0\<close>. This is that sequence, for comparison
  with what \<open>extract_frames\<close> yields.
\<close>

definition sample_spec :: "'f list \<Rightarrow> int \<Rightarrow> (int \<times> 'f) list" where
  "sample_spec fs N =
     map (\<lambda>i. (int i, fs ! i)) (filter (\<lambda>i. int i mod N = 0) [0..<length fs])"

section \<open>Test fixtures\<close>

text \<open>A video of three one-pixel frames, and a detector whose library calls are
  stubs: one face box per frame, an identity preprocessing, a fixed score vector.\<close>

definition clip :: "nat image list" where
  "clip = [[[10]], [[20]], [[30]]]"

definition stub :: "(nat, nat image) detector" where
  "stub = \<lparr> settings = default_settings,
            video_files = (\<lambda>p. if p = ''clip.mp4'' then Some clip else None),
            cascade = (\<lambda>frame. Inr [(0, 0, 1, 1)]),
            preprocess = (\<lambda>size face. Inr face),
            predict = (\<lambda>img. Inr [0, 0, 0, 1, 0, 0, 0, 0]) \<rparr>"

text \<open>A frame of two rows and two columns, and detectors that differ from the stub
  in their library calls: a model whose first two scores are the number of rows and
  the number of pixels of the crop it is given; with it, three faces of areas 100,
  400 and 250, and a face of width and height 50000 beside one of a single pixel; no
  face; a face box outside the frame; a failing cascade, preprocessing or model; a
  model of seven outputs; a model that returns a \<open>NaN\<close>; a label listed twice; a model
  that returns unnormalised scores.\<close>

definition tile :: "nat image" where
  "tile = [[1, 2], [3, 4]]"




definition empty_room :: "(nat, nat image) detector" where
  "empty_room = stub \<lparr> cascade := (\<lambda>frame. Inr []) \<rparr>"

definition off_frame :: "(nat, nat image) detector" where
  "off_frame = stub \<lparr> cascade := (\<lambda>frame. Inr [(5, 5, 2, 2)]) \<rparr>"

definition broken_cascade :: "(nat, nat image) detector" where
  "broken_cascade = stub \<lparr> cascade := (\<lambda>frame. Inl (External ''cascade failed'')) \<rparr>"

definition broken_resize :: "(nat, nat image) detector" where
  "broken_resize = stub \<lparr> preprocess := (\<lambda>size face. Inl (External ''resize failed'')) \<rparr>"

definition broken_model :: "(nat, nat image) detector" where
  "broken_model = stub \<lparr> predict := (\<lambda>img. Inl (External ''inference failed'')) \<rparr>"

definition seven_class :: "(nat, nat image) detector" where
  "seven_class = stub \<lparr> predict := (\<lambda>img. Inr [0, 0, 0, 1, 0, 0, 0]) \<rparr>"

definition nan_model :: "(nat, nat image) detector" where
  "nan_model = stub \<lparr> predict := (\<lambda>img. Inr [0, NaN, 1, 0, 0, 0, 0, 0]) \<rparr>"

definition twin_labels :: "(nat, nat image) detector" where
  "twin_labels = stub \<lparr> settings := default_settings \<lparr> keras_emotions := [''happy'', ''happy''] \<rparr>,
                        predict := (\<lambda>img. Inr [Finite (9 / 10), Finite (1 / 10)]) \<rparr>"

definition logits :: "(nat, nat image) detector" where
  "logits = stub \<lparr> predict := (\<lambda>img. Inr [Finite (1 / 2), Finite (5 / 2), Finite (- 1), 0, 0, 0, 0, 0]) \<rparr>"

text \<open>A backend with two uploaded files, of which only \<open>clip.mp4\<close> is a video, three
  requests, and a history of five actions.\<close>

definition site_detector :: "(nat, nat image) detector" where
  "site_detector =
     empty_room \<lparr> video_files := (\<lambda>p. if p = ''temp_uploads/clip.mp4'' then Some clip else None) \<rparr>"

definition site :: "(nat, nat image) backend" where
  "site = \<lparr> detector = site_detector, secure_filename = (\<lambda>name. name),
            is_file = (\<lambda>p. p = ''temp_uploads/clip.mp4'' \<or> p = ''temp_uploads/notes.mp4'') \<rparr>"

definition zero_request :: request where
  "zero_request = \<lparr> is_json = True, video_filename = Some ''clip.mp4'', frame_interval_arg = Some 0 \<rparr>"

definition clip_request :: request where
  "clip_request = \<lparr> is_json = True, video_filename = Some ''clip.mp4'', frame_interval_arg = Some 2 \<rparr>"

definition notes_request :: request where
  "notes_request = \<lparr> is_json = True, video_filename = Some ''notes.mp4'', frame_interval_arg = None \<rparr>"

definition busy_day :: "action list" where
  "busy_day = [Submit clip_request ''a'', Submit notes_request ''b'', Complete ''b'',
               Complete ''a'', Submit clip_request ''c'']"

section \<open>The invariant of the job store\<close>

text \<open>The record that \<open>_run\<close> stores for a call with the given arguments.\<close>

definition written :: "('p, 'i) detector \<Rightarrow> string \<Rightarrow> int \<Rightarrow> job" where
  "written d video_path interval =
     (case analyze_video d video_path (Some interval) of
        Inr results \<Rightarrow> \<lparr> status = ''done'', data = Some (Results results) \<rparr>
      | Inl e \<Rightarrow> \<lparr> status = ''error'', data = Some (Error_dict (str_exn e)) \<rparr>)"

text \<open>The checks of the endpoint that a request has to pass, and the arguments of
  \<open>_run\<close> that the endpoint submits for a request that passes them.\<close>

definition accepted :: "('p, 'i) backend \<Rightarrow> request \<Rightarrow> bool" where
  "accepted b req =
     (is_json req \<and>
      (case video_filename req of
         None \<Rightarrow> False
       | Some video \<Rightarrow> video \<noteq> [] \<and> is_file b (upload_dir @ ''/'' @ secure_filename b video)))"

definition call_path :: "('p, 'i) backend \<Rightarrow> request \<Rightarrow> string" where
  "call_path b req =
     (case video_filename req of
        None \<Rightarrow> []
      | Some video \<Rightarrow> upload_dir @ ''/'' @ secure_filename b video)"

definition call_interval :: "request \<Rightarrow> int" where
  "call_interval req =
     (case frame_interval_arg req of None \<Rightarrow> backend_frame_interval | Some n \<Rightarrow> n)"

text \<open>The submitted calls for a job identifier that have not run yet.\<close>

definition calls_of :: "server \<Rightarrow> string \<Rightarrow> (string \<times> int \<times> string) list" where
  "calls_of s j = filter (\<lambda>task. snd (snd task) = j) (job_pool s)"

text \<open>
  What holds of a record of the store after a history of actions. Its identifier was
  submitted with one request that passed the checks. While the record is queued it
  has no data, the call with the arguments of that request is the one pending call
  for it, and no worker has completed it. Any other record is the one \<open>_run\<close> wrote
  for the arguments of that request; no call for it is pending, and it was completed
  once.
\<close>

definition job_inv :: "('p, 'i) backend \<Rightarrow> action list \<Rightarrow> server \<Rightarrow> string \<Rightarrow> job \<Rightarrow> bool" where
  "job_inv b acts s j r =
     (\<exists>req. Submit req j \<in> set acts \<and> accepted b req \<and>
        (\<forall>req'. Submit req' j \<in> set acts \<and> accepted b req' \<longrightarrow> req' = req) \<and>
        (if status r = ''queued''
         then data r = None \<and> calls_of s j = [(call_path b req, call_interval req, j)] \<and>
              count_list acts (Complete j) = 0
         else calls_of s j = [] \<and> count_list acts (Complete j) = 1 \<and>
              r = written (detector b) (call_path b req) (call_interval req)))"

definition store_inv :: "('p, 'i) backend \<Rightarrow> action list \<Rightarrow> server \<Rightarrow> bool" where
  "store_inv b acts s =
     ((\<forall>task \<in> set (job_pool s). job_results s (snd (snd task)) \<noteq> None) \<and>
      (\<forall>j r. job_results s j = Some r \<longrightarrow> job_inv b acts s j r) \<and>
      (\<forall>j. job_results s j = None \<longrightarrow>
         count_list acts (Complete j) = 0 \<and> (\<forall>req. Submit req j \<in> set acts \<longrightarrow> \<not> accepted b req)))"

section \<open>Properties of the frame sampler\<close>

lemma run_body_skip:
  "stream cap = f # rest \<Longrightarrow> N \<noteq> 0 \<Longrightarrow> c mod N \<noteq> 0 \<Longrightarrow>
   run_body cap c N = run_body (cap \<lparr> stream := rest \<rparr>) (c + 1) N"
  by (simp add: run_body_def split: prod.splits event.splits)

lemma filter_upt_Suc_shift:
  "filter P [0..<Suc n] = (if P 0 then [0] else []) @ map Suc (filter (P \<circ> Suc) [0..<n])"
proof -
  have "[0..<Suc n] = 0 # map Suc [0..<n]"
    by (simp add: upt_conv_Cons map_Suc_upt del: upt_Suc)
  then show ?thesis
    by (simp add: filter_map del: upt_Suc)
qed

lemma drain_run_body:
  "N \<noteq> 0 \<Longrightarrow>
   drain d (run_body cap c N) acc =
     (Inr (acc @ map (nth (stream cap)) (filter (\<lambda>i. (c + int i) mod N = 0) [0..<length (stream cap)])),
      Finished (Some (release (cap \<lparr> stream := [] \<rparr>))))"
proof (induction fs \<equiv> "stream cap" arbitrary: cap c acc)
  case Nil
  then show ?case by (simp add: run_body_def)
next
  case (Cons f rest)
  let ?cap = "cap \<lparr> stream := rest \<rparr>"
  have st: "stream cap = f # rest" using Cons.hyps(2) by simp
  have IH: "drain d (run_body ?cap (c + 1) N) acc' =
     (Inr (acc' @ map (nth rest) (filter (\<lambda>i. (c + 1 + int i) mod N = 0) [0..<length rest])),
      Finished (Some (release (cap \<lparr> stream := [] \<rparr>))))" for acc'
    using Cons.hyps(1) [of ?cap "c + 1" acc'] Cons.prems by simp
  have idx: "map (nth (f # rest)) (filter (\<lambda>i. (c + int i) mod N = 0) [0..<Suc (length rest)])
     = (if c mod N = 0 then [f] else []) @
       map (nth rest) (filter (\<lambda>i. (c + 1 + int i) mod N = 0) [0..<length rest])"
    by (simp add: filter_upt_Suc_shift comp_def ac_simps del: upt_Suc)
  show ?case
  proof (cases "c mod N = 0")
    case True
    then have "run_body cap c N = (Yield f, Suspended ?cap c N)"
      using Cons.prems st by (simp add: run_body_def)
    then show ?thesis using IH [of "acc @ [f]"] idx True st by simp
  next
    case False
    then show ?thesis using run_body_skip [OF st Cons.prems False] IH [of acc] idx st by simp
  qed
qed

lemma ceil_div_nat:
  fixes F N :: nat
  assumes "0 < N"
  shows "(F + N - 1) div N = (if F mod N = 0 then F div N else Suc (F div N))"
proof (cases "F mod N = 0")
  case True
  then have "N dvd F" by (simp add: mod_eq_0_iff_dvd)
  then obtain q where q: "F = q * N" unfolding dvd_def by (auto simp: mult.commute)
  have "F + N - 1 = q * N + (N - 1)" using assms q by simp
  then have "(F + N - 1) div N = (q * N + (N - 1)) div N" by (simp only:)
  also have "\<dots> = q + (N - 1) div N"
    by (subst div_mult_self3) (use assms in auto)
  also have "\<dots> = q" using assms by simp
  finally show ?thesis using True q assms by simp
next
  case False
  define r where "r = F mod N"
  define q where "q = F div N"
  have F: "F = q * N + r" by (simp add: q_def r_def)
  have r: "0 < r" "r < N" using False assms by (simp_all add: r_def)
  have "F + N - 1 = (q + 1) * N + (r - 1)" using F r by (simp add: algebra_simps)
  then have "(F + N - 1) div N = ((q + 1) * N + (r - 1)) div N" by (simp only:)
  also have "\<dots> = (q + 1) + (r - 1) div N"
    by (subst div_mult_self3) (use assms in auto)
  also have "\<dots> = q + 1" using r by simp
  finally show ?thesis using False by (simp add: q_def)
qed

lemma filter_mod_upt:
  fixes N :: nat
  assumes "0 < N"
  shows "filter (\<lambda>i. i mod N = 0) [0..<F] = map (\<lambda>k. k * N) [0..<(F + N - 1) div N]"
proof (induction F)
  case 0
  then show ?case using assms by simp
next
  case (Suc F)
  have c: "(Suc F + N - 1) div N = Suc (F div N)"
    using assms by simp
  show ?case
  proof (cases "F mod N = 0")
    case True
    then have "F div N * N = F" by (simp add: mod_eq_0_iff_dvd)
    then show ?thesis using Suc True c ceil_div_nat [OF assms, of F] by simp
  next
    case False
    then show ?thesis using Suc c ceil_div_nat [OF assms, of F] by simp
  qed
qed

lemma ceiling_div_nat:
  fixes F N :: nat
  assumes "0 < N"
  shows "nat \<lceil>real F / real N\<rceil> = (F + N - 1) div N"
proof -
  have "\<lceil>real F / real N\<rceil> = - (- int F div int N)"
    using ceiling_divide_eq_div [of "int F" "int N"] by simp
  also have "\<dots> = (if int F mod int N = 0 then int F div int N else int F div int N + 1)"
    using assms by (simp add: zdiv_zminus1_eq_if)
  also have "\<dots> = int ((F + N - 1) div N)"
  proof -
    have "(int F mod int N = 0) = (F mod N = 0)"
      by (metis of_nat_mod of_nat_eq_0_iff)
    then show ?thesis
      using ceil_div_nat [OF assms, of F] by (simp add: zdiv_int)
  qed
  finally show ?thesis by simp
qed

lemma py_list_opened:
  assumes "N \<noteq> 0" and "video_files d video_path = Some fs"
  shows "py_list d (extract_frames video_path (Some N)) =
         Inr (map (nth fs) (filter (\<lambda>i. int i mod N = 0) [0..<length fs]))"
  using assms drain_run_body [of N d "\<lparr> is_opened = True, stream = fs, released = False \<rparr>" 0 "[]"]
  by (simp add: py_list_def extract_frames_def VideoCapture_def)

text \<open>
  C2 (as amended). For every interval \<open>N \<ge> 1\<close> and every video that opens, with
  frames \<open>fs\<close>, exhausting \<open>extract_frames\<close> gives exactly \<open>\<lceil>F / N\<rceil>\<close> frames, \<open>F\<close> the
  number of frames of the video: the frames at the original indices \<open>0, N, 2N, \<dots>\<close> in
  ascending order. The generator yields the bare frames; it attaches no index to them.
\<close>

theorem extract_frames_every_nth:
  assumes "1 \<le> N" and "video_files d video_path = Some fs"
  shows "py_list d (extract_frames video_path (Some N)) =
         Inr (map (\<lambda>k. fs ! (k * nat N)) [0..<nat \<lceil>real (length fs) / real_of_int N\<rceil>])"
proof -
  have N: "0 < nat N" "N \<noteq> 0" using assms(1) by simp_all
  have "real_of_int N = real (nat N)" using assms(1) by simp
  then have c: "nat \<lceil>real (length fs) / real_of_int N\<rceil> = (length fs + nat N - 1) div nat N"
    using ceiling_div_nat [OF N(1), of "length fs"] by (simp only:)
  have "int i mod N = int (i mod nat N)" for i using assms(1) by (simp add: zmod_int)
  then have "(int i mod N = 0) = (i mod nat N = 0)" for i by (simp only: of_nat_eq_0_iff)
  then have "filter (\<lambda>i. int i mod N = 0) [0..<length fs] =
             filter (\<lambda>i. i mod nat N = 0) [0..<length fs]"
    by (simp only:)
  also have "\<dots> = map (\<lambda>k. k * nat N) [0..<nat \<lceil>real (length fs) / real_of_int N\<rceil>]"
    using filter_mod_upt [OF N(1), of "length fs"] by (simp only: c)
  finally show ?thesis
    using py_list_opened [OF N(2) assms(2)] by (simp only: list.map_comp comp_def)
qed

theorem extract_frames_every_nth_witness:
  "(1::int) \<le> 2 \<and> video_files stub ''clip.mp4'' = Some clip \<and>
   py_list stub (extract_frames ''clip.mp4'' (Some 2)) = Inr [[[10]], [[30]]]"
  using extract_frames_every_nth [of 2 stub "''clip.mp4''" clip]
  by (simp add: stub_def clip_def upt_conv_Cons numeral_2_eq_2)

text \<open>
  C2 as stated has the sampler pair each frame with its original index. The only
  index the program ever pairs with a sampled frame is the one \<open>enumerate\<close> gives it in
  \<open>analyze_frames\<close>, its position among the sampled frames: for a video of three frames
  and interval 2 the third frame is numbered 1, not 2.
\<close>

theorem sampler_index_counterexample:
  "map_sum id py_enumerate (py_list stub (extract_frames ''clip.mp4'' (Some 2))) \<noteq>
   Inr (sample_spec clip 2)"
  by code_simp

section \<open>Properties of the per-frame analysis\<close>



lemma analyze_frame_faces:
  assumes "detect_faces d frame = Inr faces" and "faces \<noteq> []" and "py_max area faces = Inr bbox"
  shows "analyze_frame d frame frame_idx =
           (if arr_size (crop_face frame bbox) = 0 then no_face_detected frame_idx
            else (detect_emotion d (crop_face frame bbox)) \<lparr> frame_index := Some frame_idx \<rparr>)"
  using assms by (simp add: analyze_frame_def analyze_frame_try_def Let_def)


lemma analyze_frames_loop_map:
  "analyze_frames_loop d ps results = results @ map (\<lambda>(idx, frame). analyze_frame d frame idx) ps"
  by (induction ps arbitrary: results) auto

lemma py_enumerate_upt:
  "py_enumerate xs = map (\<lambda>k. (int k, xs ! k)) [0..<length xs]"
proof (rule nth_equalityI)
  show "length (py_enumerate xs) = length (map (\<lambda>k. (int k, xs ! k)) [0..<length xs])"
    by (simp add: py_enumerate_def)
next
  fix i assume "i < length (py_enumerate xs)"
  then have "i < length xs" by (simp add: py_enumerate_def)
  then show "py_enumerate xs ! i = map (\<lambda>k. (int k, xs ! k)) [0..<length xs] ! i"
    by (simp add: py_enumerate_def nth_enumerate_eq)
qed

lemma analyze_frames_upt:
  "analyze_frames d frames = map (\<lambda>k. analyze_frame d (frames ! k) (int k)) [0..<length frames]"
  by (simp add: analyze_frames_def analyze_frames_loop_map py_enumerate_upt comp_def)

lemma frame_index_analyze_frame:
  "frame_index (analyze_frame d frame frame_idx) = Some frame_idx"
  by (auto simp: analyze_frame_def analyze_frame_try_def no_face_detected_def Let_def
      split: sum.splits)














lemma py_max_wraps:
  "py_max area [(0, 0, 50000, 50000), (1, 1, 1, 1)] = Inr (1, 1, 1, 1) \<and>
   area (0, 0, 50000, 50000) = - 1794967296"
  by (simp add: py_max_def area_def)

text \<open>
  C4. A frame with no detected face, and a frame whose selected crop has no pixels,
  both give the dictionary with \<open>frame_index\<close>, \<open>emotion = "no_face_detected"\<close> and
  \<open>confidence = 0.0\<close>, and with neither \<open>scores\<close> nor \<open>error\<close>.
\<close>

theorem analyze_frame_no_face:
  assumes "detect_faces d frame = Inr faces"
    and "faces = [] \<or> (\<exists>bbox. py_max area faces = Inr bbox \<and> arr_size (crop_face frame bbox) = 0)"
  shows "analyze_frame d frame frame_idx =
           \<lparr> frame_index = Some frame_idx, emotion = ''no_face_detected'', confidence = 0,
             scores = None, error = None \<rparr>"
proof (cases "faces = []")
  case True
  then show ?thesis using assms(1)
    by (simp add: analyze_frame_def analyze_frame_try_def no_face_detected_def)
next
  case False
  with assms(2) obtain bbox where "py_max area faces = Inr bbox" "arr_size (crop_face frame bbox) = 0"
    by blast
  then show ?thesis using analyze_frame_faces [OF assms(1) False, of bbox frame_idx]
    by (simp add: no_face_detected_def)
qed

theorem analyze_frame_no_face_witness:
  "analyze_frame empty_room tile 3 =
     \<lparr> frame_index = Some 3, emotion = ''no_face_detected'', confidence = 0,
       scores = None, error = None \<rparr> \<and>
   analyze_frame off_frame tile 4 =
     \<lparr> frame_index = Some 4, emotion = ''no_face_detected'', confidence = 0,
       scores = None, error = None \<rparr>"
proof -
  have a: "detect_faces empty_room tile = Inr []"
    by (simp add: detect_faces_def empty_room_def)
  have b: "detect_faces off_frame tile = Inr [(5, 5, 2, 2)]"
    by (simp add: detect_faces_def off_frame_def)
  have c1: "py_max area [(5, 5, 2, 2)] = Inr (5, 5, 2, 2)"
    by (simp add: py_max_def)
  have c2: "arr_size (crop_face tile (5, 5, 2, 2)) = 0"
    by code_simp
  have c: "[(5, 5, 2, 2)] = [] \<or>
      (\<exists>bbox. py_max area [(5, 5, 2, 2)] = Inr bbox \<and> arr_size (crop_face tile bbox) = 0)"
    using c1 c2 by (intro disjI2 exI [of _ "(5, 5, 2, 2)"]) simp
  show ?thesis
    using analyze_frame_no_face [OF a, of 3] analyze_frame_no_face [OF b c, of 4] by simp
qed

lemma detect_emotion_caught:
  "detect_emotion_try d face_img = Inl e \<Longrightarrow>
   detect_emotion d face_img =
     \<lparr> frame_index = None, emotion = ''error'', confidence = 0, scores = None,
       error = Some (str_exn e) \<rparr>"
  by (simp add: detect_emotion_def)

lemma detect_emotion_try_raises:
  assumes "preprocess d (keras_img_size (settings d)) face_img = Inl e \<or>
           (\<exists>img. preprocess d (keras_img_size (settings d)) face_img = Inr img \<and>
                  predict d img = Inl e)"
  shows "detect_emotion_try d face_img = Inl e"
  using assms by (auto simp: detect_emotion_try_def)

lemma analyze_frames_nth:
  "k < length frames \<Longrightarrow> analyze_frames d frames ! k = analyze_frame d (frames ! k) (int k)"
  by (simp add: analyze_frames_upt)

lemma length_analyze_frames: "length (analyze_frames d frames) = length frames"
  by (simp add: analyze_frames_upt)


text \<open>
  C5. An exception raised by the face detection, by the preprocessing or by the
  inference never leaves \<open>analyze_frame\<close>: the caller gets the dictionary with
  \<open>frame_index\<close>, \<open>emotion = "error"\<close>, \<open>confidence = 0.0\<close> and \<open>error\<close> the message of the
  exception. In a batch the failing frame has this entry at its own position, and
  \<open>analyze_frames\<close> still returns one result for every frame.
\<close>

theorem analyze_frame_catches:
  assumes "detect_faces d frame = Inl e \<or>
           (\<exists>faces bbox. detect_faces d frame = Inr faces \<and> faces \<noteq> [] \<and>
               py_max area faces = Inr bbox \<and> arr_size (crop_face frame bbox) \<noteq> 0 \<and>
               (preprocess d (keras_img_size (settings d)) (crop_face frame bbox) = Inl e \<or>
                (\<exists>img. preprocess d (keras_img_size (settings d)) (crop_face frame bbox) = Inr img \<and>
                       predict d img = Inl e)))"
  shows "analyze_frame d frame frame_idx =
           \<lparr> frame_index = Some frame_idx, emotion = ''error'', confidence = 0, scores = None,
             error = Some (str_exn e) \<rparr> \<and>
         (\<forall>frames k. k < length frames \<and> frames ! k = frame \<longrightarrow>
            length (analyze_frames d frames) = length frames \<and>
            analyze_frames d frames ! k =
              \<lparr> frame_index = Some (int k), emotion = ''error'', confidence = 0, scores = None,
                error = Some (str_exn e) \<rparr>)"
proof -
  have one: "analyze_frame d frame i =
           \<lparr> frame_index = Some i, emotion = ''error'', confidence = 0, scores = None,
             error = Some (str_exn e) \<rparr>" for i
    using assms
  proof (elim disjE exE conjE)
    assume "detect_faces d frame = Inl e"
    then show ?thesis by (simp add: analyze_frame_def analyze_frame_try_def)
  next
    fix faces bbox
    assume f: "detect_faces d frame = Inr faces" "faces \<noteq> []" "py_max area faces = Inr bbox"
      "arr_size (crop_face frame bbox) \<noteq> 0"
      and "preprocess d (keras_img_size (settings d)) (crop_face frame bbox) = Inl e"
    then have "detect_emotion_try d (crop_face frame bbox) = Inl e"
      by (intro detect_emotion_try_raises) simp
    then show ?thesis
      using analyze_frame_faces [OF f(1-3), of i] f(4) by (simp add: detect_emotion_caught)
  next
    fix faces bbox img
    assume f: "detect_faces d frame = Inr faces" "faces \<noteq> []" "py_max area faces = Inr bbox"
      "arr_size (crop_face frame bbox) \<noteq> 0"
      and "preprocess d (keras_img_size (settings d)) (crop_face frame bbox) = Inr img"
        "predict d img = Inl e"
    then have "detect_emotion_try d (crop_face frame bbox) = Inl e"
      by (intro detect_emotion_try_raises) simp
    then show ?thesis
      using analyze_frame_faces [OF f(1-3), of i] f(4) by (simp add: detect_emotion_caught)
  qed
  show ?thesis
    using one by (simp add: analyze_frames_nth length_analyze_frames)
qed

theorem analyze_frame_catches_witness:
  "analyze_frame broken_cascade tile 2 =
     \<lparr> frame_index = Some 2, emotion = ''error'', confidence = 0, scores = None,
       error = Some ''cascade failed'' \<rparr> \<and>
   analyze_frame broken_resize tile 2 =
     \<lparr> frame_index = Some 2, emotion = ''error'', confidence = 0, scores = None,
       error = Some ''resize failed'' \<rparr> \<and>
   length (analyze_frames broken_model [[], tile, []]) = 3 \<and>
   analyze_frames broken_model [[], tile, []] ! 1 =
     \<lparr> frame_index = Some 1, emotion = ''error'', confidence = 0, scores = None,
       error = Some ''inference failed'' \<rparr>"
proof -
  have box: "py_max area [(0, 0, 1, 1)] = Inr (0, 0, 1, 1)" by (simp add: py_max_def)
  have crop: "arr_size (crop_face tile (0, 0, 1, 1)) \<noteq> 0" by code_simp
  have a: "detect_faces broken_cascade tile = Inl (External ''cascade failed'')"
    by (simp add: detect_faces_def broken_cascade_def)
  have b: "\<exists>faces bbox. detect_faces broken_resize tile = Inr faces \<and> faces \<noteq> [] \<and>
       py_max area faces = Inr bbox \<and> arr_size (crop_face tile bbox) \<noteq> 0 \<and>
       (preprocess broken_resize (keras_img_size (settings broken_resize)) (crop_face tile bbox)
          = Inl (External ''resize failed'') \<or>
        (\<exists>img. preprocess broken_resize (keras_img_size (settings broken_resize)) (crop_face tile bbox)
           = Inr img \<and> predict broken_resize img = Inl (External ''resize failed'')))"
    using box crop
    by (intro exI [of _ "[(0, 0, 1, 1)]"] exI [of _ "(0, 0, 1, 1)"])
       (simp add: detect_faces_def broken_resize_def stub_def)
  have c: "\<exists>faces bbox. detect_faces broken_model tile = Inr faces \<and> faces \<noteq> [] \<and>
       py_max area faces = Inr bbox \<and> arr_size (crop_face tile bbox) \<noteq> 0 \<and>
       (preprocess broken_model (keras_img_size (settings broken_model)) (crop_face tile bbox)
          = Inl (External ''inference failed'') \<or>
        (\<exists>img. preprocess broken_model (keras_img_size (settings broken_model)) (crop_face tile bbox)
           = Inr img \<and> predict broken_model img = Inl (External ''inference failed'')))"
    using box crop
    by (intro exI [of _ "[(0, 0, 1, 1)]"] exI [of _ "(0, 0, 1, 1)"])
       (simp add: detect_faces_def broken_model_def stub_def)
  have m: "1 < length [[], tile, []] \<and> [[], tile, []] ! 1 = tile" by simp
  show ?thesis
    using analyze_frame_catches [OF disjI1, OF a, of 2]
      analyze_frame_catches [OF disjI2, OF b, of 2]
      analyze_frame_catches [OF disjI2, OF c, of 0, THEN conjunct2, rule_format, OF m]
    by simp
qed


text \<open>
  C7. \<open>analyze_frames\<close> returns one result per input frame, in input order: the result
  at position \<open>k\<close> is \<open>analyze_frame\<close> of the \<open>k\<close>-th frame with index \<open>k\<close>, a function of
  that frame and its position alone, so the \<open>frame_index\<close> values are \<open>0, 1, 2, \<dots>\<close> in
  ascending order.
\<close>

theorem analyze_frames_one_per_frame:
  "analyze_frames d frames = map (\<lambda>k. analyze_frame d (frames ! k) (int k)) [0..<length frames] \<and>
   length (analyze_frames d frames) = length frames \<and>
   map frame_index (analyze_frames d frames) = map (\<lambda>k. Some (int k)) [0..<length frames]"
  by (simp add: analyze_frames_upt frame_index_analyze_frame comp_def)

theorem analyze_frames_one_per_frame_witness:
  "length (analyze_frames empty_room clip) = 3 \<and>
   map frame_index (analyze_frames empty_room clip) = [Some 0, Some 1, Some 2]"
  using analyze_frames_one_per_frame [of empty_room clip, THEN conjunct2]
  by (simp add: clip_def upt_conv_Cons numeral_3_eq_3)

section \<open>Properties of the classifier\<close>

lemma float_le_total: "a \<noteq> NaN \<Longrightarrow> b \<noteq> NaN \<Longrightarrow> a \<le> b \<or> b \<le> (a::float)"
  by (cases a; cases b) (auto simp: less_eq_float_def)

lemma float_le_trans: "a \<le> b \<Longrightarrow> b \<le> c \<Longrightarrow> a \<le> (c::float)"
  by (cases a; cases b; cases c) (auto simp: less_eq_float_def)

lemma float_le_refl: "a \<noteq> NaN \<Longrightarrow> a \<le> (a::float)"
  by (cases a) (auto simp: less_eq_float_def)

lemma float_not_le: "a \<noteq> NaN \<Longrightarrow> b \<noteq> NaN \<Longrightarrow> \<not> b \<le> a \<Longrightarrow> a < (b::float)"
  using float_le_total [of a b] by (auto simp: less_float_def less_eq_float_def)

lemma float_less_imp_le: "a < b \<Longrightarrow> a \<le> (b::float)"
  by (simp add: less_float_def less_eq_float_def)

lemma float_le_less_trans: "a \<le> b \<Longrightarrow> b < c \<Longrightarrow> a < (c::float)"
  by (cases a; cases b; cases c) (auto simp: less_eq_float_def less_float_def)

lemma float_less_le_trans: "a < b \<Longrightarrow> b \<le> c \<Longrightarrow> a < (c::float)"
  by (cases a; cases b; cases c) (auto simp: less_eq_float_def less_float_def)

lemma argmax_scan_first:
  assumes "NaN \<notin> set pre" and "NaN \<notin> set xs"
    and "i = length pre" and "max_ind < i" and "mp = pre ! max_ind"
    and "\<forall>j < i. pre ! j \<le> mp" and "\<forall>j < max_ind. pre ! j < mp"
  shows "argmax_scan xs i max_ind mp < length (pre @ xs) \<and>
         (\<forall>j < length (pre @ xs). (pre @ xs) ! j \<le> (pre @ xs) ! argmax_scan xs i max_ind mp) \<and>
         (\<forall>j < argmax_scan xs i max_ind mp. (pre @ xs) ! j < (pre @ xs) ! argmax_scan xs i max_ind mp)"
  using assms
proof (induction xs arbitrary: pre i max_ind mp)
  case Nil
  then show ?case by simp
next
  case (Cons x xs)
  have x: "x \<noteq> NaN" using Cons.prems(2) by auto
  have mp: "mp \<noteq> NaN" using Cons.prems(1,3,4,5) by (metis nth_mem)
  have pre': "NaN \<notin> set (pre @ [x])" "NaN \<notin> set xs" using Cons.prems(1,2) x by auto
  show ?case
  proof (cases "x \<le> mp")
    case False
    then have lt: "mp < x" using float_not_le [OF mp x] by simp
    have "argmax_scan xs (i + 1) i x < length ((pre @ [x]) @ xs) \<and>
         (\<forall>j < length ((pre @ [x]) @ xs). ((pre @ [x]) @ xs) ! j \<le> ((pre @ [x]) @ xs) ! argmax_scan xs (i + 1) i x) \<and>
         (\<forall>j < argmax_scan xs (i + 1) i x. ((pre @ [x]) @ xs) ! j < ((pre @ [x]) @ xs) ! argmax_scan xs (i + 1) i x)"
    proof (rule Cons.IH [OF pre'])
      show "i + 1 = length (pre @ [x])" using Cons.prems(3) by simp
      show "i < i + 1" by simp
      show "x = (pre @ [x]) ! i" using Cons.prems(3) by simp
      show "\<forall>j < i + 1. (pre @ [x]) ! j \<le> x"
      proof (intro allI impI)
        fix j assume "j < i + 1"
        then consider "j < i" | "j = i" by linarith
        then show "(pre @ [x]) ! j \<le> x"
        proof cases
          case 1
          then have "pre ! j \<le> mp" using Cons.prems(6) by simp
          then have "pre ! j \<le> x" using float_less_imp_le [OF lt] float_le_trans by blast
          then show ?thesis using 1 Cons.prems(3) by (simp add: nth_append)
        next
          case 2
          then show ?thesis using Cons.prems(3) float_le_refl [OF x] by simp
        qed
      qed
      show "\<forall>j < i. (pre @ [x]) ! j < x"
      proof (intro allI impI)
        fix j assume j: "j < i"
        then have "pre ! j \<le> mp" using Cons.prems(6) by simp
        then have "pre ! j < x" using lt float_le_less_trans by blast
        then show "(pre @ [x]) ! j < x" using j Cons.prems(3) by (simp add: nth_append)
      qed
    qed
    then show ?thesis using False x by simp
  next
    case True
    have "argmax_scan xs (i + 1) max_ind mp < length ((pre @ [x]) @ xs) \<and>
         (\<forall>j < length ((pre @ [x]) @ xs). ((pre @ [x]) @ xs) ! j \<le> ((pre @ [x]) @ xs) ! argmax_scan xs (i + 1) max_ind mp) \<and>
         (\<forall>j < argmax_scan xs (i + 1) max_ind mp. ((pre @ [x]) @ xs) ! j < ((pre @ [x]) @ xs) ! argmax_scan xs (i + 1) max_ind mp)"
    proof (rule Cons.IH [OF pre'])
      show "i + 1 = length (pre @ [x])" using Cons.prems(3) by simp
      show "max_ind < i + 1" using Cons.prems(4) by simp
      show "mp = (pre @ [x]) ! max_ind" using Cons.prems(3,4,5) by (simp add: nth_append)
      show "\<forall>j < i + 1. (pre @ [x]) ! j \<le> mp"
        using Cons.prems(3,6) True by (auto simp: nth_append less_Suc_eq)
      show "\<forall>j < max_ind. (pre @ [x]) ! j < mp"
        using Cons.prems(3,4,7) by (auto simp: nth_append)
    qed
    then show ?thesis using True by simp
  qed
qed

lemma np_argmax_lt:
  assumes "np_argmax v = Inr i"
  shows "i < length v"
proof -
  have scan: "max_ind < i \<Longrightarrow> argmax_scan xs i max_ind mp < i + length xs" for xs i max_ind mp
  proof (induction xs arbitrary: i max_ind mp)
    case Nil
    then show ?case by simp
  next
    case (Cons x xs)
    have a: "argmax_scan xs (i + 1) i x < i + 1 + length xs" by (rule Cons.IH) simp
    have b: "argmax_scan xs (i + 1) max_ind mp < i + 1 + length xs"
      by (rule Cons.IH) (use Cons.prems in simp)
    show ?case using a b by simp
  qed
  from assms obtain x xs where v: "v = x # xs"
    and i: "i = (if x = NaN then 0 else argmax_scan xs 1 0 x)"
    by (cases v) (auto simp: np_argmax_def)
  show ?thesis using scan [of 0 1 xs x] by (auto simp: v i)
qed

lemma np_argmax_first:
  assumes "np_argmax v = Inr i" and "NaN \<notin> set v"
  shows "i < length v \<and> (\<forall>j < length v. v ! j \<le> v ! i) \<and> (\<forall>j < i. v ! j < v ! i)"
proof -
  from assms obtain x xs where v: "v = x # xs" and i: "i = argmax_scan xs 1 0 x"
    by (cases v) (auto simp: np_argmax_def)
  have x: "x \<noteq> NaN" "NaN \<notin> set xs" using assms(2) v by auto
  show ?thesis
    using argmax_scan_first [of "[x]" xs 1 0 x] x float_le_refl [OF x(1)] by (simp add: v i)
qed

lemma update_fresh_key:
  "k \<notin> fst ` set al \<Longrightarrow> AList.update k v al = al @ [(k, v)]"
  by (induction al) auto

lemma py_dict_distinct_aux:
  "distinct (map fst (acc @ kvs)) \<Longrightarrow>
   foldl (\<lambda>d (k, v). AList.update k v d) acc kvs = acc @ kvs"
proof (induction kvs arbitrary: acc)
  case Nil
  then show ?case by simp
next
  case (Cons kv kvs)
  obtain k v where kv: "kv = (k, v)" by (cases kv)
  have "k \<notin> fst ` set acc" using Cons.prems kv by auto
  then have "AList.update k v acc = acc @ [(k, v)]" by (rule update_fresh_key)
  then show ?case using Cons.IH [of "acc @ [kv]"] Cons.prems kv by simp
qed

lemma py_dict_distinct: "distinct (map fst kvs) \<Longrightarrow> py_dict kvs = kvs"
  using py_dict_distinct_aux [of "[]" kvs] by (simp add: py_dict_def)

lemma py_index_Inr:
  "py_index xs (int i) = Inr x \<Longrightarrow> i < length xs \<and> x = xs ! i"
  by (auto simp: py_index_def split: if_splits)

lemma zip_take_right: "zip xs (take (length xs) ys) = zip xs ys"
proof (induction xs arbitrary: ys)
  case Nil
  then show ?case by simp
next
  case (Cons x xs)
  then show ?case by (cases ys) auto
qed

lemma detect_emotion_try_Inr:
  assumes "preprocess d (keras_img_size (settings d)) face_img = Inr img"
    and "predict d img = Inr prediction"
    and "detect_emotion_try d face_img = Inr result"
  shows "\<exists>i. np_argmax prediction = Inr i \<and> i < length (keras_emotions (settings d)) \<and>
           result = \<lparr> frame_index = None, emotion = keras_emotions (settings d) ! i,
                      confidence = prediction ! i,
                      scores = Some (py_dict (zip (keras_emotions (settings d)) prediction)),
                      error = None \<rparr>"
  using assms
  by (auto simp: detect_emotion_try_def split: sum.splits dest!: py_index_Inr)




text \<open>
  C1 (as amended). Let the configured labels be pairwise distinct, and let the
  model's score vector have at least one entry per label and no \<open>NaN\<close> in it. Whenever
  classification succeeds (no exception leaves the \<open>try\<close> block), \<open>detect_emotion\<close>
  returns \<open>scores\<close> with exactly the configured labels as keys, in the configured
  order, each with the score at its position; \<open>emotion\<close> is the label at the position
  \<open>i\<close> of the maximal score, the first such position; and \<open>confidence\<close> is that score,
  with \<open>confidence == scores[emotion]\<close>.
\<close>

theorem detect_emotion_argmax:
  assumes "preprocess d (keras_img_size (settings d)) face_img = Inr img"
    and "predict d img = Inr prediction"
    and "detect_emotion_try d face_img = Inr result"
    and "distinct (keras_emotions (settings d))"
    and "length (keras_emotions (settings d)) \<le> length prediction"
    and "NaN \<notin> set prediction"
  shows "detect_emotion d face_img = result \<and> error result = None \<and>
         (\<exists>sc i. scores result = Some sc \<and>
            map fst sc = keras_emotions (settings d) \<and>
            map snd sc = take (length (keras_emotions (settings d))) prediction \<and>
            i < length (keras_emotions (settings d)) \<and>
            emotion result = keras_emotions (settings d) ! i \<and>
            confidence result = prediction ! i \<and>
            (\<exists>v. map_of sc (emotion result) = Some v \<and> py_eq (confidence result) v) \<and>
            (\<forall>j < length prediction. prediction ! j \<le> prediction ! i) \<and>
            (\<forall>j < i. prediction ! j < prediction ! i))"
proof -
  let ?labels = "keras_emotions (settings d)"
  let ?sc = "zip ?labels prediction"
  from detect_emotion_try_Inr [OF assms(1-3)] obtain i where i: "np_argmax prediction = Inr i"
    "i < length ?labels"
    "result = \<lparr> frame_index = None, emotion = ?labels ! i, confidence = prediction ! i,
                scores = Some (py_dict ?sc), error = None \<rparr>" by blast
  have fst: "map fst ?sc = ?labels" using assms(5) by (simp add: map_fst_zip_take)
  have snd: "map snd ?sc = take (length ?labels) prediction" by (simp add: map_snd_zip_take min_def)
  have dict: "py_dict ?sc = ?sc" using assms(4) fst by (simp add: py_dict_distinct)
  have "?sc = zip ?labels (take (length ?labels) prediction)"
    by (simp add: zip_take_right)
  then have "map_of ?sc (?labels ! i) = Some (take (length ?labels) prediction ! i)"
    using assms(4,5) i(2) map_of_zip_nth [of ?labels "take (length ?labels) prediction" i] by simp
  then have look: "map_of ?sc (?labels ! i) = Some (prediction ! i)" using i(2) by simp
  have "prediction ! i \<in> set prediction" using i(2) assms(5) by simp
  then have "prediction ! i \<noteq> NaN" using assms(6) by metis
  then have eq: "py_eq (prediction ! i) (prediction ! i)" by (simp add: py_eq_def)
  have "detect_emotion d face_img = result" using assms(3) by (simp add: detect_emotion_def)
  moreover have "error result = None" using i(3) by simp
  moreover have "scores result = Some ?sc" using i(3) dict by simp
  moreover have "emotion result = ?labels ! i" "confidence result = prediction ! i"
    using i(3) by simp_all
  moreover have "\<exists>v. map_of ?sc (?labels ! i) = Some v \<and> py_eq (prediction ! i) v"
    using look eq by blast
  moreover note fst snd i(2) np_argmax_first [OF i(1) assms(6)]
  ultimately show ?thesis
    by (intro conjI exI [of _ ?sc] exI [of _ i]) (simp_all (no_asm_simp) only:, blast+)
qed

theorem detect_emotion_argmax_witness:
  "detect_emotion stub tile =
     \<lparr> frame_index = None, emotion = ''happy'', confidence = 1,
       scores = Some [(''angry'', 0), (''disgust'', 0), (''fear'', 0), (''happy'', 1),
                      (''sad'', 0), (''surprise'', 0), (''neutral'', 0), (''contempt'', 0)],
       error = None \<rparr>"
proof -
  have a: "preprocess stub (keras_img_size (settings stub)) tile = Inr tile"
    by (simp add: stub_def)
  have b: "predict stub tile = Inr [0, 0, 0, 1, 0, 0, 0, 0]"
    by (simp add: stub_def)
  have c: "detect_emotion_try stub tile =
     Inr \<lparr> frame_index = None, emotion = ''happy'', confidence = 1,
       scores = Some [(''angry'', 0), (''disgust'', 0), (''fear'', 0), (''happy'', 1),
                      (''sad'', 0), (''surprise'', 0), (''neutral'', 0), (''contempt'', 0)],
       error = None \<rparr>"
    by code_simp
  have d: "distinct (keras_emotions (settings stub))"
    by (simp add: stub_def default_settings_def)
  have e: "length (keras_emotions (settings stub)) \<le> length [0, 0, 0, 1, 0, 0, 0, 0 :: float]"
    by (simp add: stub_def default_settings_def)
  have f: "NaN \<notin> set [0, 0, 0, 1, 0, 0, 0, 0 :: float]"
    by (simp add: zero_float_def one_float_def)
  show ?thesis
    using detect_emotion_argmax [OF a b c d e f] by simp
qed


text \<open>Ties: of two equal maximal scores \<open>np.argmax\<close> takes the position of the first.\<close>

lemma np_argmax_tie: "np_argmax [Finite (1 / 5), Finite (2 / 5), Finite (2 / 5)] = Inr 1"
  by code_simp


text \<open>
  C1 as stated asks for nothing of the model. With the eight default labels and a
  model of seven outputs, classification succeeds and \<open>scores\<close> has seven keys:
  \<open>zip\<close> stops at the shorter sequence, and \<open>contempt\<close> is missing.
\<close>

theorem scores_keys_counterexample:
  "(\<exists>result. detect_emotion_try seven_class tile = Inr result) \<and>
   map_option (set \<circ> map fst) (scores (detect_emotion seven_class tile)) \<noteq>
     Some (set (keras_emotions (settings seven_class)))"
proof
  have "detect_emotion_try seven_class tile =
     Inr \<lparr> frame_index = None, emotion = ''happy'', confidence = 1,
       scores = Some [(''angry'', 0), (''disgust'', 0), (''fear'', 0), (''happy'', 1),
                      (''sad'', 0), (''surprise'', 0), (''neutral'', 0)],
       error = None \<rparr>"
    by code_simp
  then show "\<exists>result. detect_emotion_try seven_class tile = Inr result" by blast
  show "map_option (set \<circ> map fst) (scores (detect_emotion seven_class tile)) \<noteq>
     Some (set (keras_emotions (settings seven_class)))"
    by code_simp
qed


text \<open>With a label listed twice the dictionary keeps the later score under that key,
  so \<open>scores[emotion]\<close> need not be \<open>confidence\<close>; hence the distinct labels above.\<close>

lemma duplicate_label_example:
  "confidence (detect_emotion twin_labels tile) = Finite (9 / 10) \<and>
   map_option (\<lambda>sc. map_of sc (emotion (detect_emotion twin_labels tile)))
     (scores (detect_emotion twin_labels tile)) = Some (Some (Finite (1 / 10)))"
  by code_simp


text \<open>With a \<open>NaN\<close> among the scores \<open>np.argmax\<close> gives the position of the first
  \<open>NaN\<close>, whatever the other scores, and \<open>confidence == scores[emotion]\<close> is false; hence
  the scores without \<open>NaN\<close> above.\<close>

lemma nan_score_example:
  "emotion (detect_emotion nan_model tile) = ''disgust'' \<and>
   confidence (detect_emotion nan_model tile) = NaN \<and>
   map_option (\<lambda>sc. map_of sc ''disgust'') (scores (detect_emotion nan_model tile)) = Some (Some NaN) \<and>
   \<not> py_eq (confidence (detect_emotion nan_model tile)) NaN"
  by code_simp

lemma confidence_detect_emotion:
  assumes "\<forall>img prediction. predict d img = Inr prediction \<longrightarrow> (\<forall>s \<in> set prediction. 0 \<le> s \<and> s \<le> 1)"
  shows "0 \<le> confidence (detect_emotion d face_img) \<and> confidence (detect_emotion d face_img) \<le> 1"
proof (cases "detect_emotion_try d face_img")
  case (Inl e)
  then show ?thesis by (simp add: detect_emotion_def less_eq_float_def zero_float_def one_float_def)
next
  case (Inr result)
  then obtain img prediction i where p: "predict d img = Inr prediction"
    "np_argmax prediction = Inr i" "confidence result = prediction ! i"
    by (auto simp: detect_emotion_try_def split: sum.splits)
  have "i < length prediction" using np_argmax_lt [OF p(2)] by simp
  then have "prediction ! i \<in> set prediction" by simp
  then show ?thesis using assms p(1,3) Inr by (auto simp: detect_emotion_def)
qed


text \<open>
  C9 (as amended). If every score the model returns lies in \<open>[0, 1]\<close>, then the
  \<open>confidence\<close> of every result of \<open>analyze_frame\<close> lies in \<open>[0, 1]\<close>: it is \<open>0.0\<close> for
  the no-face and the error results, and otherwise an entry of the score vector.
\<close>

theorem analyze_frame_confidence_range:
  assumes "\<forall>img prediction. predict d img = Inr prediction \<longrightarrow> (\<forall>s \<in> set prediction. 0 \<le> s \<and> s \<le> 1)"
  shows "0 \<le> confidence (analyze_frame d frame frame_idx) \<and>
         confidence (analyze_frame d frame frame_idx) \<le> 1"
proof -
  have z: "(0::float) \<le> 0 \<and> (0::float) \<le> 1"
    by (simp add: less_eq_float_def zero_float_def one_float_def)
  show ?thesis
    using confidence_detect_emotion [OF assms] z
    by (auto simp: analyze_frame_def analyze_frame_try_def no_face_detected_def Let_def
        split: sum.splits)
qed

theorem analyze_frame_confidence_range_witness:
  "0 \<le> confidence (analyze_frame stub tile 0) \<and> confidence (analyze_frame stub tile 0) \<le> 1"
proof -
  have "\<forall>img prediction. predict stub img = Inr prediction \<longrightarrow> (\<forall>s \<in> set prediction. 0 \<le> s \<and> s \<le> 1)"
    by (auto simp: stub_def less_eq_float_def zero_float_def one_float_def)
  then show ?thesis by (rule analyze_frame_confidence_range)
qed


text \<open>
  C9 as stated holds for any model. \<open>detect_emotion\<close> copies the maximal entry of the
  model's output without clamping it: a model that returns unnormalised scores gives
  a confidence above 1.
\<close>

theorem confidence_range_counterexample:
  "confidence (analyze_frame logits tile 0) = Finite (5 / 2) \<and>
   \<not> confidence (analyze_frame logits tile 0) \<le> 1"
  by code_simp

section \<open>Release of the video handle\<close>

text \<open>
  On normal exhaustion the handle is released: the \<open>break\<close> leads to
  \<open>cap.release()\<close>. A generator closed or dropped while suspended at its \<open>yield\<close>
  leaves the handle unreleased, and so does one that ends by an exception.
\<close>

lemma exhaustion_releases:
  assumes "N \<noteq> 0" and "video_files d video_path = Some fs"
  shows "\<exists>cap. snd (drain d (gen_next d (extract_frames video_path (Some N))) []) = Finished (Some cap)
           \<and> released cap"
  using assms drain_run_body [of N d "\<lparr> is_opened = True, stream = fs, released = False \<rparr>" 0 "[]"]
  by (simp add: extract_frames_def VideoCapture_def release_def)

lemma run_body_unreleased:
  assumes "run_body cap n k = (ev, g)" and "\<not> released cap" and "ev \<noteq> StopIteration"
  shows "\<exists>cap'. gen_close g = Finished (Some cap') \<and> \<not> released cap'"
  using assms by (auto simp: run_body_def split: prod.splits event.splits)

lemma abandonment_skips_release:
  assumes "gen_next d (extract_frames video_path interval) = (Yield frame, g)"
  shows "\<exists>cap. gen_close g = Finished (Some cap) \<and> \<not> released cap"
proof -
  let ?cap = "VideoCapture d video_path"
  have "\<not> released ?cap" by (simp add: VideoCapture_def split: option.splits)
  moreover from assms obtain k where "run_body ?cap 0 k = (Yield frame, g)"
    by (auto simp: extract_frames_def Let_def split: if_splits)
  ultimately show ?thesis using run_body_unreleased by blast
qed


lemma zero_interval_raises:
  assumes "video_files d video_path = Some (frame # rest)"
  shows "gen_next d (extract_frames video_path (Some 0)) =
           (Raise (ZeroDivisionError ''integer modulo by zero''),
            Finished (Some \<lparr> is_opened = True, stream = rest, released = False \<rparr>))"
  using assms by (simp add: extract_frames_def VideoCapture_def run_body_def)

lemma analyze_video_zero_interval:
  assumes "video_files d video_path = Some (frame # rest)"
  shows "analyze_video d video_path (Some 0) = Inl (ZeroDivisionError ''integer modulo by zero'')"
  using zero_interval_raises [OF assms] by (simp add: analyze_video_def py_list_def)


text \<open>
  C8. The claim is that the sampler releases the handle on normal exhaustion and on
  early abandonment alike. Evaluated on the three-frame video: a consumer that takes
  one frame and closes the generator leaves the handle unreleased, and with interval
  0 the generator ends by \<open>ZeroDivisionError\<close> with the handle unreleased.
\<close>

theorem extract_frames_release_skipped:
  "(\<exists>frame cap. gen_next stub (extract_frames ''clip.mp4'' (Some 1)) = (Yield frame, Suspended cap 0 1)
       \<and> gen_close (Suspended cap 0 1) = Finished (Some cap) \<and> \<not> released cap) \<and>
   (\<exists>e cap. drain stub (gen_next stub (extract_frames ''clip.mp4'' (Some 0))) [] =
       (Inl e, Finished (Some cap)) \<and> \<not> released cap)"
  by (simp add: extract_frames_def VideoCapture_def run_body_def stub_def clip_def)


section \<open>The endpoint and the sampling interval\<close>

text \<open>
  C10. The endpoint validates the request and the file, not the interval: a request
  that names an uploaded file is accepted with whatever integer \<open>frame_interval\<close> it
  carries, and the job is queued with it. With interval 0 and a video that opens and
  has a frame, \<open>analyze_video\<close> raises \<open>ZeroDivisionError\<close> in the worker, and \<open>_run\<close>
  records the job with status \<open>error\<close>.
\<close>

theorem zero_interval_not_rejected:
  assumes "is_json req" and "video_filename req = Some video" and "video \<noteq> []"
    and "video_path = upload_dir @ ''/'' @ secure_filename b video" and "is_file b video_path"
    and "frame_interval_arg req = Some n"
  shows "analyze_video_endpoint b req job_id s =
           (Accepted job_id,
            s \<lparr> job_results := (job_results s) (job_id \<mapsto> \<lparr> status = ''queued'', data = None \<rparr>),
                job_pool := job_pool s @ [(video_path, n, job_id)] \<rparr>) \<and>
         (n = 0 \<and> (\<exists>frame rest. video_files (detector b) video_path = Some (frame # rest)) \<longrightarrow>
            (\<exists>m. analyze_video (detector b) video_path (Some n) = Inl (ZeroDivisionError m) \<and>
                 (\<forall>store. run (detector b) video_path n job_id store =
                    store (job_id \<mapsto> \<lparr> status = ''error'', data = Some (Error_dict m) \<rparr>))))"
proof
  show "analyze_video_endpoint b req job_id s =
           (Accepted job_id,
            s \<lparr> job_results := (job_results s) (job_id \<mapsto> \<lparr> status = ''queued'', data = None \<rparr>),
                job_pool := job_pool s @ [(video_path, n, job_id)] \<rparr>)"
    using assms by (simp add: analyze_video_endpoint_def Let_def)
  show "n = 0 \<and> (\<exists>frame rest. video_files (detector b) video_path = Some (frame # rest)) \<longrightarrow>
            (\<exists>m. analyze_video (detector b) video_path (Some n) = Inl (ZeroDivisionError m) \<and>
                 (\<forall>store. run (detector b) video_path n job_id store =
                    store (job_id \<mapsto> \<lparr> status = ''error'', data = Some (Error_dict m) \<rparr>)))"
    by (auto simp: run_def analyze_video_zero_interval)
qed

theorem zero_interval_not_rejected_witness:
  "exec site startup [Submit zero_request ''j1'', Complete ''j1''] =
     Some \<lparr> job_results = [''j1'' \<mapsto> \<lparr> status = ''error'', data = Some (Error_dict ''integer modulo by zero'') \<rparr>],
            job_pool = [] \<rparr>"
proof -
  have a: "is_json zero_request" "video_filename zero_request = Some ''clip.mp4''" "''clip.mp4'' \<noteq> []"
    "frame_interval_arg zero_request = Some 0"
    by (simp_all add: zero_request_def)
  have p: "''temp_uploads/clip.mp4'' = upload_dir @ ''/'' @ secure_filename site ''clip.mp4''"
    by (simp add: upload_dir_def site_def)
  have f: "is_file site ''temp_uploads/clip.mp4''" by (simp add: site_def)
  have v: "\<exists>frame rest. video_files (detector site) ''temp_uploads/clip.mp4'' = Some (frame # rest)"
    by (simp add: site_def site_detector_def clip_def)
  from zero_interval_not_rejected [OF a(1-3) p f a(4), of "''j1''" startup] v
  obtain m where m: "analyze_video_endpoint site zero_request ''j1'' startup =
      (Accepted ''j1'',
       startup \<lparr> job_results := (job_results startup) (''j1'' \<mapsto> \<lparr> status = ''queued'', data = None \<rparr>),
                 job_pool := job_pool startup @ [(''temp_uploads/clip.mp4'', 0, ''j1'')] \<rparr>)"
    "analyze_video (detector site) ''temp_uploads/clip.mp4'' (Some 0) = Inl (ZeroDivisionError m)"
    "\<forall>store. run (detector site) ''temp_uploads/clip.mp4'' 0 ''j1'' store =
        store (''j1'' \<mapsto> \<lparr> status = ''error'', data = Some (Error_dict m) \<rparr>)"
    by auto
  have "m = ''integer modulo by zero''"
    using m(2) analyze_video_zero_interval [of "detector site" "''temp_uploads/clip.mp4''"] v by auto
  then show ?thesis using m(1,3) by (simp add: startup_def)
qed

section \<open>Properties of the job store\<close>

lemma run_written: "run d video_path interval job_id store = store (job_id \<mapsto> written d video_path interval)"
  by (simp add: run_def written_def split: sum.splits)

lemma written_terminal:
  "status (written d p n) \<noteq> ''queued'' \<and> data (written d p n) \<noteq> None \<and>
   (status (written d p n) = ''done'' \<or> status (written d p n) = ''error'')"
  by (simp add: written_def split: sum.splits)

lemma find_SomeD: "find P xs = Some x \<Longrightarrow> x \<in> set xs \<and> P x"
  by (induction xs) (auto split: if_splits)

lemma endpoint_accepted:
  assumes "accepted b req"
  shows "snd (analyze_video_endpoint b req job_id s) =
      s \<lparr> job_results := (job_results s) (job_id \<mapsto> \<lparr> status = ''queued'', data = None \<rparr>),
          job_pool := job_pool s @ [(call_path b req, call_interval req, job_id)] \<rparr>"
  using assms
  by (auto simp: analyze_video_endpoint_def accepted_def call_path_def call_interval_def Let_def
      split: option.splits)

lemma endpoint_refused:
  assumes "\<not> accepted b req"
  shows "snd (analyze_video_endpoint b req job_id s) = s"
  using assms
  by (auto simp: analyze_video_endpoint_def accepted_def Let_def split: option.splits)

lemma store_inv_startup: "store_inv b [] startup"
  by (simp add: store_inv_def startup_def)

lemma store_inv_refused:
  assumes "store_inv b acts s" and "\<not> accepted b req" and "job_results s job_id = None"
  shows "store_inv b (acts @ [Submit req job_id]) s"
  unfolding store_inv_def
proof (intro conjI allI impI)
  show "\<forall>task \<in> set (job_pool s). job_results s (snd (snd task)) \<noteq> None"
    using assms(1) by (simp add: store_inv_def)
next
  fix j r assume jr: "job_results s j = Some r"
  then have "job_inv b acts s j r" using assms(1) by (simp add: store_inv_def)
  then obtain q where q: "Submit q j \<in> set acts" "accepted b q"
    "\<forall>req'. Submit req' j \<in> set acts \<and> accepted b req' \<longrightarrow> req' = q"
    "if status r = ''queued''
         then data r = None \<and> calls_of s j = [(call_path b q, call_interval q, j)] \<and>
              count_list acts (Complete j) = 0
         else calls_of s j = [] \<and> count_list acts (Complete j) = 1 \<and>
              r = written (detector b) (call_path b q) (call_interval q)"
    unfolding job_inv_def by blast
  show "job_inv b (acts @ [Submit req job_id]) s j r"
    unfolding job_inv_def
  proof (intro exI [of _ q] conjI allI impI)
    show "Submit q j \<in> set (acts @ [Submit req job_id])" using q(1) by simp
    show "accepted b q" by (rule q(2))
    show "req' = q" if "Submit req' j \<in> set (acts @ [Submit req job_id]) \<and> accepted b req'" for req'
      using that q(3) assms(2) by auto
    show "if status r = ''queued''
         then data r = None \<and> calls_of s j = [(call_path b q, call_interval q, j)] \<and>
              count_list (acts @ [Submit req job_id]) (Complete j) = 0
         else calls_of s j = [] \<and> count_list (acts @ [Submit req job_id]) (Complete j) = 1 \<and>
              r = written (detector b) (call_path b q) (call_interval q)"
      using q(4) by simp
  qed
next
  fix j assume "job_results s j = None"
  then have "count_list acts (Complete j) = 0" "\<forall>q. Submit q j \<in> set acts \<longrightarrow> \<not> accepted b q"
    using assms(1) by (simp_all add: store_inv_def)
  then show "count_list (acts @ [Submit req job_id]) (Complete j) = 0"
    "\<And>q. Submit q j \<in> set (acts @ [Submit req job_id]) \<Longrightarrow> \<not> accepted b q"
    using assms(2) by auto
qed

lemma calls_of_fresh:
  assumes "store_inv b acts s" and "job_results s job_id = None"
  shows "calls_of s job_id = []"
  using assms by (auto simp: store_inv_def calls_of_def filter_empty_conv)

lemma store_inv_queue:
  assumes inv: "store_inv b acts s" and acc: "accepted b req" and fresh: "job_results s job_id = None"
  shows "store_inv b (acts @ [Submit req job_id])
           (s \<lparr> job_results := (job_results s) (job_id \<mapsto> \<lparr> status = ''queued'', data = None \<rparr>),
               job_pool := job_pool s @ [(call_path b req, call_interval req, job_id)] \<rparr>)"
proof -
  let ?t = "(call_path b req, call_interval req, job_id)"
  let ?s' = "s \<lparr> job_results := (job_results s) (job_id \<mapsto> \<lparr> status = ''queued'', data = None \<rparr>),
               job_pool := job_pool s @ [?t] \<rparr>"
  let ?acts' = "acts @ [Submit req job_id]"
  have none: "count_list acts (Complete job_id) = 0"
    "\<forall>q. Submit q job_id \<in> set acts \<longrightarrow> \<not> accepted b q"
    using inv fresh by (simp_all add: store_inv_def)
  have calls_new: "calls_of ?s' job_id = [?t]"
    using calls_of_fresh [OF inv fresh] by (simp add: calls_of_def)
  have calls_old: "calls_of ?s' j = calls_of s j" if "j \<noteq> job_id" for j
    using that by (simp add: calls_of_def)
  show ?thesis
    unfolding store_inv_def
  proof (intro conjI allI impI)
    show "\<forall>task \<in> set (job_pool ?s'). job_results ?s' (snd (snd task)) \<noteq> None"
      using inv by (auto simp: store_inv_def)
  next
    fix j r assume jr: "job_results ?s' j = Some r"
    show "job_inv b ?acts' ?s' j r"
    proof (cases "j = job_id")
      case True
      then have r: "r = \<lparr> status = ''queued'', data = None \<rparr>" using jr by simp
      show ?thesis
        unfolding job_inv_def
      proof (intro exI [of _ req] conjI allI impI)
        show "Submit req j \<in> set ?acts'" using True by simp
        show "accepted b req" by (rule acc)
        show "req' = req" if "Submit req' j \<in> set ?acts' \<and> accepted b req'" for req'
          using that none(2) True by auto
        show "if status r = ''queued''
           then data r = None \<and> calls_of ?s' j = [(call_path b req, call_interval req, j)] \<and>
                count_list ?acts' (Complete j) = 0
           else calls_of ?s' j = [] \<and> count_list ?acts' (Complete j) = 1 \<and>
                r = written (detector b) (call_path b req) (call_interval req)"
          using r True calls_new none(1) by simp
      qed
    next
      case False
      then have "job_results s j = Some r" using jr by simp
      then have "job_inv b acts s j r" using inv by (simp add: store_inv_def)
      then obtain q where q: "Submit q j \<in> set acts" "accepted b q"
        "\<forall>req'. Submit req' j \<in> set acts \<and> accepted b req' \<longrightarrow> req' = q"
        "if status r = ''queued''
           then data r = None \<and> calls_of s j = [(call_path b q, call_interval q, j)] \<and>
                count_list acts (Complete j) = 0
           else calls_of s j = [] \<and> count_list acts (Complete j) = 1 \<and>
                r = written (detector b) (call_path b q) (call_interval q)"
        unfolding job_inv_def by blast
      show ?thesis
        unfolding job_inv_def
      proof (intro exI [of _ q] conjI allI impI)
        show "Submit q j \<in> set ?acts'" using q(1) by simp
        show "accepted b q" by (rule q(2))
        show "req' = q" if "Submit req' j \<in> set ?acts' \<and> accepted b req'" for req'
          using that q(3) False by auto
        show "if status r = ''queued''
           then data r = None \<and> calls_of ?s' j = [(call_path b q, call_interval q, j)] \<and>
                count_list ?acts' (Complete j) = 0
           else calls_of ?s' j = [] \<and> count_list ?acts' (Complete j) = 1 \<and>
                r = written (detector b) (call_path b q) (call_interval q)"
          using q(4) calls_old [OF False] by simp
      qed
    qed
  next
    fix j assume "job_results ?s' j = None"
    then have j: "j \<noteq> job_id" "job_results s j = None" by (auto split: if_splits)
    then have "count_list acts (Complete j) = 0" "\<forall>q. Submit q j \<in> set acts \<longrightarrow> \<not> accepted b q"
      using inv by (simp_all add: store_inv_def)
    then show "count_list ?acts' (Complete j) = 0"
      "\<And>q. Submit q j \<in> set ?acts' \<Longrightarrow> \<not> accepted b q"
      using j(1) by auto
  qed
qed

lemma find_filter_hd:
  "find P xs = Some x \<Longrightarrow> \<exists>ys. filter P xs = x # ys"
  by (induction xs) (auto split: if_splits)

lemma store_inv_complete:
  assumes inv: "store_inv b acts s"
    and f: "find (\<lambda>task. snd (snd task) = k) (job_pool s) = Some t"
  shows "\<exists>q r. job_results s k = Some r \<and> status r = ''queued'' \<and>
           Submit q k \<in> set acts \<and> accepted b q \<and>
           t = (call_path b q, call_interval q, k) \<and>
           store_inv b (acts @ [Complete k])
             (s \<lparr> job_results := run (detector b) (call_path b q) (call_interval q) k (job_results s),
                 job_pool := remove1 t (job_pool s) \<rparr>)"
proof -
  from find_filter_hd [OF f] obtain ys where ys: "calls_of s k = t # ys"
    by (auto simp: calls_of_def)
  from find_SomeD [OF f] have t: "t \<in> set (job_pool s)" "snd (snd t) = k" by simp_all
  then obtain r where r: "job_results s k = Some r"
    using inv by (auto simp: store_inv_def)
  then have "job_inv b acts s k r" using inv by (simp add: store_inv_def)
  then obtain q where q: "Submit q k \<in> set acts" "accepted b q"
    "\<forall>req'. Submit req' k \<in> set acts \<and> accepted b req' \<longrightarrow> req' = q"
    "if status r = ''queued''
       then data r = None \<and> calls_of s k = [(call_path b q, call_interval q, k)] \<and>
            count_list acts (Complete k) = 0
       else calls_of s k = [] \<and> count_list acts (Complete k) = 1 \<and>
            r = written (detector b) (call_path b q) (call_interval q)"
    unfolding job_inv_def by blast
  have queued: "status r = ''queued''" using q(4) ys by (auto split: if_splits)
  then have tq: "t = (call_path b q, call_interval q, k)" and c0: "count_list acts (Complete k) = 0"
    using q(4) ys by simp_all
  let ?w = "written (detector b) (call_path b q) (call_interval q)"
  let ?s' = "s \<lparr> job_results := run (detector b) (call_path b q) (call_interval q) k (job_results s),
                 job_pool := remove1 t (job_pool s) \<rparr>"
  let ?acts' = "acts @ [Complete k]"
  have calls: "calls_of ?s' j = remove1 t (calls_of s j)" for j
    by (simp add: calls_of_def filter_remove1)
  have calls_k: "calls_of ?s' k = []" using calls [of k] q(4) queued tq by simp
  have calls_other: "calls_of ?s' j = calls_of s j" if "j \<noteq> k" for j
  proof -
    have "t \<notin> set (calls_of s j)" using that t(2) by (auto simp: calls_of_def)
    then show ?thesis using calls [of j] by (simp add: remove1_idem)
  qed
  have "store_inv b ?acts' ?s'"
    unfolding store_inv_def
  proof (intro conjI allI impI)
    show "\<forall>task \<in> set (job_pool ?s'). job_results ?s' (snd (snd task)) \<noteq> None"
    proof
      fix task assume "task \<in> set (job_pool ?s')"
      then have "task \<in> set (job_pool s)" using notin_set_remove1 [of task "job_pool s" t] by auto
      then have "job_results s (snd (snd task)) \<noteq> None" using inv by (simp add: store_inv_def)
      then show "job_results ?s' (snd (snd task)) \<noteq> None" by (simp add: run_written)
    qed
  next
    fix j r' assume jr: "job_results ?s' j = Some r'"
    show "job_inv b ?acts' ?s' j r'"
    proof (cases "j = k")
      case True
      then have r': "r' = ?w" using jr by (simp add: run_written)
      show ?thesis
        unfolding job_inv_def
      proof (intro exI [of _ q] conjI allI impI)
        show "Submit q j \<in> set ?acts'" using q(1) True by simp
        show "accepted b q" by (rule q(2))
        show "req' = q" if "Submit req' j \<in> set ?acts' \<and> accepted b req'" for req'
          using that q(3) True by auto
        show "if status r' = ''queued''
           then data r' = None \<and> calls_of ?s' j = [(call_path b q, call_interval q, j)] \<and>
                count_list ?acts' (Complete j) = 0
           else calls_of ?s' j = [] \<and> count_list ?acts' (Complete j) = 1 \<and>
                r' = written (detector b) (call_path b q) (call_interval q)"
          using r' True calls_k c0 written_terminal [of "detector b" "call_path b q" "call_interval q"]
          by simp
      qed
    next
      case False
      then have "job_results s j = Some r'" using jr by (simp add: run_written)
      then have "job_inv b acts s j r'" using inv by (simp add: store_inv_def)
      then obtain p where p: "Submit p j \<in> set acts" "accepted b p"
        "\<forall>req'. Submit req' j \<in> set acts \<and> accepted b req' \<longrightarrow> req' = p"
        "if status r' = ''queued''
           then data r' = None \<and> calls_of s j = [(call_path b p, call_interval p, j)] \<and>
                count_list acts (Complete j) = 0
           else calls_of s j = [] \<and> count_list acts (Complete j) = 1 \<and>
                r' = written (detector b) (call_path b p) (call_interval p)"
        unfolding job_inv_def by blast
      show ?thesis
        unfolding job_inv_def
      proof (intro exI [of _ p] conjI allI impI)
        show "Submit p j \<in> set ?acts'" using p(1) by simp
        show "accepted b p" by (rule p(2))
        show "req' = p" if "Submit req' j \<in> set ?acts' \<and> accepted b req'" for req'
          using that p(3) by auto
        show "if status r' = ''queued''
           then data r' = None \<and> calls_of ?s' j = [(call_path b p, call_interval p, j)] \<and>
                count_list ?acts' (Complete j) = 0
           else calls_of ?s' j = [] \<and> count_list ?acts' (Complete j) = 1 \<and>
                r' = written (detector b) (call_path b p) (call_interval p)"
          using p(4) calls_other [OF False] False by simp
      qed
    qed
  next
    fix j assume "job_results ?s' j = None"
    then have j: "j \<noteq> k" "job_results s j = None" by (auto simp: run_written split: if_splits)
    then have "count_list acts (Complete j) = 0" "\<forall>q. Submit q j \<in> set acts \<longrightarrow> \<not> accepted b q"
      using inv by (simp_all add: store_inv_def)
    then show "count_list ?acts' (Complete j) = 0"
      "\<And>q. Submit q j \<in> set ?acts' \<Longrightarrow> \<not> accepted b q"
      using j(1) by auto
  qed
  then show ?thesis using r queued q(1,2) tq by blast
qed

lemma store_inv_step:
  assumes "store_inv b acts s" and "step b s a = Some s'"
  shows "store_inv b (acts @ [a]) s'"
proof (cases a)
  case (Submit req job_id)
  then have fresh: "job_results s job_id = None" and s': "s' = snd (analyze_video_endpoint b req job_id s)"
    using assms(2) by (auto simp: domIff split: if_splits)
  show ?thesis
  proof (cases "accepted b req")
    case True
    then show ?thesis
      using store_inv_queue [OF assms(1) True fresh] s' Submit by (simp add: endpoint_accepted)
  next
    case False
    then show ?thesis
      using store_inv_refused [OF assms(1) False fresh] s' Submit by (simp add: endpoint_refused)
  qed
next
  case (Complete k)
  then obtain p n j where f: "find (\<lambda>task. snd (snd task) = k) (job_pool s) = Some (p, n, j)"
    and s': "s' = s \<lparr> job_results := run (detector b) p n j (job_results s),
                      job_pool := remove1 (p, n, j) (job_pool s) \<rparr>"
    using assms(2) by (auto split: option.splits)
  from store_inv_complete [OF assms(1) f] show ?thesis using s' Complete by auto
qed

lemma store_inv_exec:
  assumes "store_inv b pre s" and "exec b s acts = Some s'"
  shows "store_inv b (pre @ acts) s'"
  using assms
proof (induction acts arbitrary: pre s)
  case Nil
  then show ?case by simp
next
  case (Cons a acts)
  from Cons.prems(2) obtain s1 where s1: "step b s a = Some s1" "exec b s1 acts = Some s'"
    by (auto split: option.splits)
  from Cons.IH [OF store_inv_step [OF Cons.prems(1) s1(1)] s1(2)] show ?case by simp
qed

lemma filter_hd_find:
  "filter P xs = x # ys \<Longrightarrow> find P xs = Some x"
  by (induction xs) (auto split: if_splits)

lemma accepted_request:
  assumes "accepted b req"
  shows "\<exists>video. is_json req \<and> video_filename req = Some video \<and> video \<noteq> [] \<and>
           call_path b req = upload_dir @ ''/'' @ secure_filename b video \<and>
           is_file b (call_path b req)"
  using assms by (auto simp: accepted_def call_path_def split: option.splits)

lemma written_cases:
  "(case analyze_video d video_path (Some interval) of
      Inr results \<Rightarrow> written d video_path interval = \<lparr> status = ''done'', data = Some (Results results) \<rparr>
    | Inl e \<Rightarrow> written d video_path interval =
        \<lparr> status = ''error'', data = Some (Error_dict (str_exn e)) \<rparr>)"
  by (simp add: written_def split: sum.splits)


lemma analyze_video_cannot_open:
  assumes "video_files d video_path = None"
  shows "analyze_video d video_path interval = Inl (RuntimeError (''Cannot open video: '' @ video_path))"
  using assms
  by (simp add: analyze_video_def py_list_def extract_frames_def VideoCapture_def Let_def)

lemma busy_day_clip:
  "analyze_video (detector site) ''temp_uploads/clip.mp4'' (Some 2) =
     Inr [no_face_detected 0, no_face_detected 1]"
  by code_simp

lemma busy_day_notes:
  "analyze_video (detector site) ''temp_uploads/notes.mp4'' (Some 10) =
     Inl (RuntimeError ''Cannot open video: temp_uploads/notes.mp4'')"
  using analyze_video_cannot_open [of "detector site" "''temp_uploads/notes.mp4''" "Some 10"]
  by (simp add: site_def site_detector_def)

lemma busy_day_exec:
  "\<exists>s. exec site startup busy_day = Some s \<and>
       job_results s ''a'' = Some \<lparr> status = ''done'',
          data = Some (Results [no_face_detected 0, no_face_detected 1]) \<rparr> \<and>
       job_results s ''b'' = Some \<lparr> status = ''error'',
          data = Some (Error_dict ''Cannot open video: temp_uploads/notes.mp4'') \<rparr> \<and>
       job_results s ''c'' = Some \<lparr> status = ''queued'', data = None \<rparr> \<and>
       job_pool s = [(''temp_uploads/clip.mp4'', 2, ''c'')]"
  using busy_day_clip busy_day_notes
  by (simp add: busy_day_def startup_def clip_request_def notes_request_def
      analyze_video_endpoint_def upload_dir_def backend_frame_interval_def run_def site_def)


text \<open>
  C6. After any sequence of submissions and completed runs, every record of the store
  has its \<open>data\<close> set if and only if its status is \<open>done\<close> or \<open>error\<close>. The record
  belongs to the one accepted request submitted under its identifier, with the path
  and the interval of that request. It is \<open>queued\<close> with no data from its submission
  until its run, which a worker can always perform, on exactly those arguments; the
  run, which happens once and cannot happen again, replaces it by \<open>done\<close> with the list
  of results when \<open>analyze_video\<close> of that path and interval returns, and by \<open>error\<close>
  with \<open>{"error": message}\<close> when it raises (a video that cannot be opened raises
  \<open>RuntimeError\<close>).
\<close>

theorem job_store_invariant:
  assumes "exec b startup acts = Some s" and "job_results s job_id = Some r"
  shows "(data r \<noteq> None \<longleftrightarrow> status r = ''done'' \<or> status r = ''error'') \<and>
         (status r = ''queued'' \<or> status r = ''done'' \<or> status r = ''error'') \<and>
         (\<exists>req video video_path interval.
            Submit req job_id \<in> set acts \<and>
            is_json req \<and> video_filename req = Some video \<and> video \<noteq> [] \<and>
            video_path = upload_dir @ ''/'' @ secure_filename b video \<and> is_file b video_path \<and>
            interval = (case frame_interval_arg req of None \<Rightarrow> backend_frame_interval | Some n \<Rightarrow> n) \<and>
            (\<forall>req'. Submit req' job_id \<in> set acts \<and> is_json req' \<and>
                (\<exists>v. video_filename req' = Some v \<and> v \<noteq> [] \<and>
                     is_file b (upload_dir @ ''/'' @ secure_filename b v)) \<longrightarrow> req' = req) \<and>
            (status r = ''queued'' \<longrightarrow>
               data r = None \<and> count_list acts (Complete job_id) = 0 \<and>
               filter (\<lambda>task. snd (snd task) = job_id) (job_pool s) = [(video_path, interval, job_id)] \<and>
               (\<exists>s'. step b s (Complete job_id) = Some s' \<and>
                  (case analyze_video (detector b) video_path (Some interval) of
                     Inr results \<Rightarrow>
                       job_results s' job_id = Some \<lparr> status = ''done'', data = Some (Results results) \<rparr>
                   | Inl e \<Rightarrow>
                       job_results s' job_id =
                         Some \<lparr> status = ''error'', data = Some (Error_dict (str_exn e)) \<rparr>))) \<and>
            (status r \<noteq> ''queued'' \<longrightarrow>
               count_list acts (Complete job_id) = 1 \<and>
               job_id \<notin> (snd \<circ> snd) ` set (job_pool s) \<and>
               (case analyze_video (detector b) video_path (Some interval) of
                  Inr results \<Rightarrow> r = \<lparr> status = ''done'', data = Some (Results results) \<rparr>
                | Inl e \<Rightarrow> r = \<lparr> status = ''error'', data = Some (Error_dict (str_exn e)) \<rparr>)))"
proof -
  have "store_inv b acts s"
    using store_inv_exec [OF store_inv_startup assms(1)] by simp
  then have "job_inv b acts s job_id r" using assms(2) by (simp add: store_inv_def)
  then obtain q where q: "Submit q job_id \<in> set acts" "accepted b q"
    "\<forall>req'. Submit req' job_id \<in> set acts \<and> accepted b req' \<longrightarrow> req' = q"
    "if status r = ''queued''
       then data r = None \<and> calls_of s job_id = [(call_path b q, call_interval q, job_id)] \<and>
            count_list acts (Complete job_id) = 0
       else calls_of s job_id = [] \<and> count_list acts (Complete job_id) = 1 \<and>
            r = written (detector b) (call_path b q) (call_interval q)"
    unfolding job_inv_def by blast
  from accepted_request [OF q(2)] obtain video where v: "is_json q" "video_filename q = Some video"
    "video \<noteq> []" "call_path b q = upload_dir @ ''/'' @ secure_filename b video"
    "is_file b (call_path b q)" by blast
  let ?p = "call_path b q" and ?n = "call_interval q"
  let ?w = "written (detector b) ?p ?n"
  note w = written_cases [of "detector b" ?p ?n] written_terminal [of "detector b" ?p ?n]
  have uniq: "\<forall>req'. Submit req' job_id \<in> set acts \<and> is_json req' \<and>
                (\<exists>v. video_filename req' = Some v \<and> v \<noteq> [] \<and>
                     is_file b (upload_dir @ ''/'' @ secure_filename b v)) \<longrightarrow> req' = q"
    using q(3) by (auto simp: accepted_def)
  have queued: "data r = None \<and> count_list acts (Complete job_id) = 0 \<and>
               filter (\<lambda>task. snd (snd task) = job_id) (job_pool s) = [(?p, ?n, job_id)] \<and>
               (\<exists>s'. step b s (Complete job_id) = Some s' \<and>
                  (case analyze_video (detector b) ?p (Some ?n) of
                     Inr results \<Rightarrow>
                       job_results s' job_id = Some \<lparr> status = ''done'', data = Some (Results results) \<rparr>
                   | Inl e \<Rightarrow>
                       job_results s' job_id =
                         Some \<lparr> status = ''error'', data = Some (Error_dict (str_exn e)) \<rparr>))"
    if "status r = ''queued''"
  proof -
    have c: "data r = None" "calls_of s job_id = [(?p, ?n, job_id)]"
      "count_list acts (Complete job_id) = 0"
      using q(4) that by simp_all
    then have "find (\<lambda>task. snd (snd task) = job_id) (job_pool s) = Some (?p, ?n, job_id)"
      by (intro filter_hd_find [of _ _ _ "[]"]) (simp add: calls_of_def)
    then have "step b s (Complete job_id) =
        Some (s \<lparr> job_results := run (detector b) ?p ?n job_id (job_results s),
                  job_pool := remove1 (?p, ?n, job_id) (job_pool s) \<rparr>)"
      by simp
    moreover have "case analyze_video (detector b) ?p (Some ?n) of
        Inr results \<Rightarrow>
          job_results (s \<lparr> job_results := run (detector b) ?p ?n job_id (job_results s),
                  job_pool := remove1 (?p, ?n, job_id) (job_pool s) \<rparr>) job_id =
            Some \<lparr> status = ''done'', data = Some (Results results) \<rparr>
      | Inl e \<Rightarrow>
          job_results (s \<lparr> job_results := run (detector b) ?p ?n job_id (job_results s),
                  job_pool := remove1 (?p, ?n, job_id) (job_pool s) \<rparr>) job_id =
            Some \<lparr> status = ''error'', data = Some (Error_dict (str_exn e)) \<rparr>"
      using w(1) by (simp add: run_written split: sum.splits)
    ultimately show ?thesis using c by (auto simp: calls_of_def)
  qed
  have fin: "count_list acts (Complete job_id) = 1 \<and>
               job_id \<notin> (snd \<circ> snd) ` set (job_pool s) \<and>
               (case analyze_video (detector b) ?p (Some ?n) of
                  Inr results \<Rightarrow> r = \<lparr> status = ''done'', data = Some (Results results) \<rparr>
                | Inl e \<Rightarrow> r = \<lparr> status = ''error'', data = Some (Error_dict (str_exn e)) \<rparr>)"
    if "status r \<noteq> ''queued''"
  proof -
    have c: "calls_of s job_id = []" "count_list acts (Complete job_id) = 1" "r = ?w"
      using q(4) that by simp_all
    have "job_id \<notin> (snd \<circ> snd) ` set (job_pool s)"
      using c(1) by (auto simp: calls_of_def filter_empty_conv)
    then show ?thesis using c(2,3) w(1) by (simp split: sum.splits)
  qed
  have shape: "(data r \<noteq> None \<longleftrightarrow> status r = ''done'' \<or> status r = ''error'') \<and>
         (status r = ''queued'' \<or> status r = ''done'' \<or> status r = ''error'')"
  proof (cases "status r = ''queued''")
    case True
    then show ?thesis using q(4) by simp
  next
    case False
    then have "r = ?w" using q(4) by simp
    then show ?thesis using w(2) by auto
  qed
  have "\<exists>req video video_path interval.
            Submit req job_id \<in> set acts \<and>
            is_json req \<and> video_filename req = Some video \<and> video \<noteq> [] \<and>
            video_path = upload_dir @ ''/'' @ secure_filename b video \<and> is_file b video_path \<and>
            interval = (case frame_interval_arg req of None \<Rightarrow> backend_frame_interval | Some n \<Rightarrow> n) \<and>
            (\<forall>req'. Submit req' job_id \<in> set acts \<and> is_json req' \<and>
                (\<exists>v. video_filename req' = Some v \<and> v \<noteq> [] \<and>
                     is_file b (upload_dir @ ''/'' @ secure_filename b v)) \<longrightarrow> req' = req) \<and>
            (status r = ''queued'' \<longrightarrow>
               data r = None \<and> count_list acts (Complete job_id) = 0 \<and>
               filter (\<lambda>task. snd (snd task) = job_id) (job_pool s) = [(video_path, interval, job_id)] \<and>
               (\<exists>s'. step b s (Complete job_id) = Some s' \<and>
                  (case analyze_video (detector b) video_path (Some interval) of
                     Inr results \<Rightarrow>
                       job_results s' job_id = Some \<lparr> status = ''done'', data = Some (Results results) \<rparr>
                   | Inl e \<Rightarrow>
                       job_results s' job_id =
                         Some \<lparr> status = ''error'', data = Some (Error_dict (str_exn e)) \<rparr>))) \<and>
            (status r \<noteq> ''queued'' \<longrightarrow>
               count_list acts (Complete job_id) = 1 \<and>
               job_id \<notin> (snd \<circ> snd) ` set (job_pool s) \<and>
               (case analyze_video (detector b) video_path (Some interval) of
                  Inr results \<Rightarrow> r = \<lparr> status = ''done'', data = Some (Results results) \<rparr>
                | Inl e \<Rightarrow> r = \<lparr> status = ''error'', data = Some (Error_dict (str_exn e)) \<rparr>))"
  proof (rule exI [of _ q], rule exI [of _ video], rule exI [of _ ?p], rule exI [of _ ?n],
      intro conjI)
    show "Submit q job_id \<in> set acts" by (rule q(1))
    show "is_json q" "video_filename q = Some video" "video \<noteq> []"
      "?p = upload_dir @ ''/'' @ secure_filename b video" "is_file b ?p"
      by (rule v)+
    show "?n = (case frame_interval_arg q of None \<Rightarrow> backend_frame_interval | Some n \<Rightarrow> n)"
      by (simp add: call_interval_def)
    show "\<forall>req'. Submit req' job_id \<in> set acts \<and> is_json req' \<and>
                (\<exists>v. video_filename req' = Some v \<and> v \<noteq> [] \<and>
                     is_file b (upload_dir @ ''/'' @ secure_filename b v)) \<longrightarrow> req' = q"
      by (rule uniq)
    show "status r = ''queued'' \<longrightarrow>
               data r = None \<and> count_list acts (Complete job_id) = 0 \<and>
               filter (\<lambda>task. snd (snd task) = job_id) (job_pool s) = [(?p, ?n, job_id)] \<and>
               (\<exists>s'. step b s (Complete job_id) = Some s' \<and>
                  (case analyze_video (detector b) ?p (Some ?n) of
                     Inr results \<Rightarrow>
                       job_results s' job_id = Some \<lparr> status = ''done'', data = Some (Results results) \<rparr>
                   | Inl e \<Rightarrow>
                       job_results s' job_id =
                         Some \<lparr> status = ''error'', data = Some (Error_dict (str_exn e)) \<rparr>))"
      using queued by blast
    show "status r \<noteq> ''queued'' \<longrightarrow>
               count_list acts (Complete job_id) = 1 \<and>
               job_id \<notin> (snd \<circ> snd) ` set (job_pool s) \<and>
               (case analyze_video (detector b) ?p (Some ?n) of
                  Inr results \<Rightarrow> r = \<lparr> status = ''done'', data = Some (Results results) \<rparr>
                | Inl e \<Rightarrow> r = \<lparr> status = ''error'', data = Some (Error_dict (str_exn e)) \<rparr>)"
      using fin by blast
  qed
  with shape show ?thesis by blast
qed

text \<open>Three jobs: one completed over a two-frame sample, one whose file is not a video,
  one still queued.\<close>

theorem job_store_invariant_witness:
  "\<exists>s. exec site startup busy_day = Some s \<and>
       job_results s ''a'' = Some \<lparr> status = ''done'',
          data = Some (Results [no_face_detected 0, no_face_detected 1]) \<rparr> \<and>
       job_results s ''b'' = Some \<lparr> status = ''error'',
          data = Some (Error_dict ''Cannot open video: temp_uploads/notes.mp4'') \<rparr> \<and>
       job_results s ''c'' = Some \<lparr> status = ''queued'', data = None \<rparr> \<and>
       count_list busy_day (Complete ''a'') = 1 \<and>
       count_list busy_day (Complete ''b'') = 1 \<and>
       count_list busy_day (Complete ''c'') = 0"
proof -
  from busy_day_exec obtain s where s: "exec site startup busy_day = Some s"
    "job_results s ''a'' = Some \<lparr> status = ''done'',
          data = Some (Results [no_face_detected 0, no_face_detected 1]) \<rparr>"
    "job_results s ''b'' = Some \<lparr> status = ''error'',
          data = Some (Error_dict ''Cannot open video: temp_uploads/notes.mp4'') \<rparr>"
    "job_results s ''c'' = Some \<lparr> status = ''queued'', data = None \<rparr>"
    by blast
  have a: "count_list busy_day (Complete ''a'') = 1"
    using job_store_invariant [OF s(1) s(2)] by auto
  have b: "count_list busy_day (Complete ''b'') = 1"
    using job_store_invariant [OF s(1) s(3)] by auto
  have c: "count_list busy_day (Complete ''c'') = 0"
    using job_store_invariant [OF s(1) s(4)] by auto
  show ?thesis
    using s a b c by (intro exI [of _ s]) simp
qed

end
